theory Spec2Isabelle
  imports Main "HOL-Library.Sublist"
begin

section \<open>Host-language values\<close>

text \<open>
  A string of the program is a list of code units, here \<^typ>\<open>char\<close>. A thrown
  \<^verbatim>\<open>Error\<close> is a value carrying its message.
\<close>

datatype js_error = JsError string

text \<open>
  A \<^verbatim>\<open>Number\<close> of the host language is an IEEE 754 double. The Numbers that this
  program computes are the results of \<^verbatim>\<open>Number.parseInt\<close> on a run of decimal digits
  and of \<^verbatim>\<open>x - 1\<close> on them: integers that a double holds, and the infinities. A double
  holds every integer up to \<open>2^53\<close> in absolute value. A larger integer is rounded to 53
  significant bits: to the nearer of its two neighbours with 53 significant bits, and
  half way between them to the one whose last significant bit is 0; when the rounded
  value reaches \<open>2^1024\<close> the Number is infinite.
\<close>

datatype number = Fin int | Infinity | NegInfinity

text \<open>The number of binary digits of a positive \<open>n\<close>.\<close>

function bitLength :: "int \<Rightarrow> nat" where
  "bitLength n = (if n \<le> 0 then 0 else Suc (bitLength (n div 2)))"
  by pat_completeness auto

termination
  by (relation "measure nat") auto

text \<open>
  \<open>round53 n\<close>: \<open>n \<ge> 0\<close> rounded to 53 significant bits. \<open>e\<close> is the number of
  bits that do not fit, \<open>q\<close> the leading 53 bits and \<open>r\<close> the bits cut off.
\<close>

definition round53 :: "int \<Rightarrow> int" where
  "round53 n =
     (let e = bitLength n - 53;
          q = n div 2 ^ e;
          r = n mod 2 ^ e
      in (if 2 ^ e < 2 * r \<or> (2 * r = 2 ^ e \<and> odd q) then q + 1 else q) * 2 ^ e)"

text \<open>The Number for an integer.\<close>

definition toNumber :: "int \<Rightarrow> number" where
  "toNumber i =
     (let v = round53 \<bar>i\<bar>
      in if 2 ^ 1024 \<le> v then (if i < 0 then NegInfinity else Infinity)
         else Fin (if i < 0 then - v else v))"

text \<open>\<^verbatim>\<open>x - 1\<close>.\<close>

fun minusOne :: "number \<Rightarrow> number" where
  "minusOne (Fin n) = toNumber (n - 1)"
| "minusOne Infinity = Infinity"
| "minusOne NegInfinity = NegInfinity"

text \<open>\<^verbatim>\<open>x < 0\<close> and \<^verbatim>\<open>x < y\<close>.\<close>

fun isNegative :: "number \<Rightarrow> bool" where
  "isNegative (Fin n) = (n < 0)"
| "isNegative Infinity = False"
| "isNegative NegInfinity = True"

fun numLess :: "number \<Rightarrow> number \<Rightarrow> bool" where
  "numLess (Fin a) (Fin b) = (a < b)"
| "numLess NegInfinity y = (y \<noteq> NegInfinity)"
| "numLess x Infinity = (x \<noteq> Infinity)"
| "numLess x y = False"

definition LF :: char where
  "LF = CHR 0x0A"

definition CR :: char where
  "CR = CHR 0x0D"

definition BQ :: char where
  "BQ = CHR 0x60"

definition isDigit :: "char \<Rightarrow> bool" where
  "isDigit x = (x \<in> set ''0123456789'')"

text \<open>The characters below 256 that \<^verbatim>\<open>\s\<close> and \<^verbatim>\<open>trim\<close> treat as white space.\<close>

definition isWhiteSpace :: "char \<Rightarrow> bool" where
  "isWhiteSpace x = (x \<in> set [CHR 0x09, CHR 0x0A, CHR 0x0B, CHR 0x0C, CHR 0x0D, CHR 0x20, CHR 0xA0])"

text \<open>\<^verbatim>\<open>String.prototype.trim\<close>.\<close>

definition trim :: "string \<Rightarrow> string" where
  "trim s = rev (dropWhile isWhiteSpace (rev (dropWhile isWhiteSpace s)))"

text \<open>
  \<^verbatim>\<open>s.split(/\s+/)\<close>: the walk of \<^verbatim>\<open>String.prototype.split\<close> with the separator
  \<^verbatim>\<open>\s+\<close>. \<open>cur\<close> is the piece collected since the last separator; a white-space
  character starts a separator, which is the whole run of white space (the quantifier
  is greedy); the piece open at the end of the string is pushed last. On the empty
  string the result is the one empty piece.
\<close>

function splitWs :: "string \<Rightarrow> string \<Rightarrow> string list" where
  "splitWs cur [] = [cur]"
| "splitWs cur (x # xs) =
     (if isWhiteSpace x then cur # splitWs [] (dropWhile isWhiteSpace xs)
      else splitWs (cur @ [x]) xs)"
  by pat_completeness auto

termination
  by (relation "measure (\<lambda>(cur, s). length s)") (auto simp: le_imp_less_Suc length_dropWhile_le)

definition split_ws :: "string \<Rightarrow> string list" where
  "split_ws s = splitWs [] s"

text \<open>
  \<^verbatim>\<open>Number.parseInt(s, 10)\<close> on a string that starts with decimal digits (the only
  strings the program passes are matches of \<^verbatim>\<open>\d+\<close>): the Number for the integer that
  the leading run of digits writes in base ten, \<open>decimal\<close> of the run.
\<close>

definition digitVal :: "char \<Rightarrow> int" where
  "digitVal x = int (of_char x) - 48"

definition decimal :: "string \<Rightarrow> int" where
  "decimal s = foldl (\<lambda>a x. 10 * a + digitVal x) 0 s"

definition parseInt :: "string \<Rightarrow> number" where
  "parseInt s = toNumber (decimal (takeWhile isDigit s))"

section \<open>Regular expressions\<close>

text \<open>
  The fragment of the host language's regular expressions that \<^verbatim>\<open>errMsgRegex\<close> uses:
  character sets, literal text, the greedy quantifier \<^verbatim>\<open>+\<close> on a character set,
  concatenation, alternation and numbered capture groups. The matcher is the
  backtracking one: \<open>rmatch r (s, c)\<close> lists, in the order in which backtracking tries
  them, every way \<open>r\<close> can match a prefix of \<open>s\<close>, each as the unread rest of \<open>s\<close> with
  the captures made so far. The first element is the match the engine reports.
\<close>

datatype cset = Chr char | Digit | NoneOf "char list"

fun accepts :: "cset \<Rightarrow> char \<Rightarrow> bool" where
  "accepts (Chr c) x = (x = c)"
| "accepts Digit x = isDigit x"
| "accepts (NoneOf cs) x = (x \<notin> set cs)"

datatype regex =
    One cset
  | Str string
  | Plus cset
  | Seq regex regex
  | Alt regex regex
  | Group nat regex

type_synonym captures = "nat \<rightharpoonup> string"

fun rmatch :: "regex \<Rightarrow> string \<times> captures \<Rightarrow> (string \<times> captures) list" where
  "rmatch (One cs) (s, c) =
     (case s of [] \<Rightarrow> [] | x # xs \<Rightarrow> if accepts cs x then [(xs, c)] else [])"
| "rmatch (Str w) (s, c) =
     (if take (length w) s = w then [(drop (length w) s, c)] else [])"
| "rmatch (Plus cs) (s, c) =
     map (\<lambda>n. (drop n s, c)) (rev [1 ..< Suc (length (takeWhile (accepts cs) s))])"
| "rmatch (Seq r1 r2) st = concat (map (rmatch r2) (rmatch r1 st))"
| "rmatch (Alt r1 r2) st = rmatch r1 st @ rmatch r2 st"
| "rmatch (Group n r) (s, c) =
     map (\<lambda>(s', c'). (s', c'(n \<mapsto> take (length s - length s') s))) (rmatch r (s, c))"

fun seq :: "regex list \<Rightarrow> regex" where
  "seq [] = Str []"
| "seq [r] = r"
| "seq (r # rs) = Seq r (seq rs)"

text \<open>
  \<open>scan r t\<close> tries \<open>r\<close> at the start of \<open>t\<close>, then at each later position; it returns
  the text from the start of the first match, the text after that match, and the
  captures.
\<close>

fun scan :: "regex \<Rightarrow> string \<Rightarrow> (string \<times> string \<times> captures) option" where
  "scan r [] = (case rmatch r ([], Map.empty) of [] \<Rightarrow> None | (b, c) # _ \<Rightarrow> Some ([], b, c))"
| "scan r (x # xs) =
     (case rmatch r (x # xs, Map.empty) of
        [] \<Rightarrow> scan r xs
      | (b, c) # _ \<Rightarrow> Some (x # xs, b, c))"

text \<open>
  \<^verbatim>\<open>RegExp.prototype.exec\<close> of a global expression whose \<^verbatim>\<open>lastIndex\<close> is \<open>i\<close>: the
  index of the match, the new \<^verbatim>\<open>lastIndex\<close> (the end of the match) and the captures;
  \<open>None\<close> is \<^verbatim>\<open>null\<close>, on which the caller resets \<^verbatim>\<open>lastIndex\<close> to 0.
\<close>

record regExpExec =
  index :: nat
  endIndex :: nat
  groups :: captures

definition regex_exec :: "regex \<Rightarrow> string \<Rightarrow> nat \<Rightarrow> regExpExec option" where
  "regex_exec r s i =
     (if length s < i then None
      else case scan r (drop i s) of
        None \<Rightarrow> None
      | Some (a, b, c) \<Rightarrow>
          Some \<lparr>index = length s - length a, endIndex = length s - length b, groups = c\<rparr>)"

text \<open>A capture that took part in the match; \<^verbatim>\<open>errGroup[n]\<close>.\<close>

definition grp :: "captures \<Rightarrow> nat \<Rightarrow> string" where
  "grp c n = (case c n of None \<Rightarrow> [] | Some w \<Rightarrow> w)"

text \<open>
  \<^verbatim>\<open>errMsgRegex\<close>, the four joined pieces
  \<^verbatim>\<open>([^\n\r]+):\<close>, \<^verbatim>\<open>(\d+):(\d+):\<close>, \<^verbatim>\<open> (error|warning):\<close> and \<^verbatim>\<open> ([^\n\r]+)\<close>.
  The pattern has no anchor, so its flag \<^verbatim>\<open>m\<close> changes nothing.
\<close>

definition errMsgRegex :: regex where
  "errMsgRegex = seq
     [Group 1 (Plus (NoneOf [LF, CR])), Str '':'',
      Group 2 (Plus Digit), Str '':'', Group 3 (Plus Digit), Str '':'',
      Str '' '', Group 4 (Alt (Str ''error'') (Str ''warning'')), Str '':'',
      Str '' '', Group 5 (Plus (NoneOf [LF, CR]))]"

text \<open>
  Two shapes of text that the pattern reads: text within a line, and a decimal number.
\<close>

definition lineText :: "string \<Rightarrow> bool" where
  "lineText w = (w \<noteq> [] \<and> (\<forall>x\<in>set w. x \<noteq> LF \<and> x \<noteq> CR))"

definition digits :: "string \<Rightarrow> bool" where
  "digits w = (w \<noteq> [] \<and> (\<forall>x\<in>set w. isDigit x))"

text \<open>
  \<open>avoids r x\<close>: no character that \<open>r\<close> reads can be \<open>x\<close>. A match of such an
  expression never crosses an \<open>x\<close>, so what follows the \<open>x\<close> does not change it.
\<close>

fun avoids :: "regex \<Rightarrow> char \<Rightarrow> bool" where
  "avoids (One cs) x = (\<not> accepts cs x)"
| "avoids (Str w) x = (x \<notin> set w)"
| "avoids (Plus cs) x = (\<not> accepts cs x)"
| "avoids (Seq r1 r2) x = (avoids r1 x \<and> avoids r2 x)"
| "avoids (Alt r1 r2) x = (avoids r1 x \<and> avoids r2 x)"
| "avoids (Group n r) x = avoids r x"

section \<open>The editor's data\<close>

text \<open>
  A \<^verbatim>\<open>vscode.Uri\<close> is its scheme and its file-system path; \<^verbatim>\<open>vscode.Uri.file\<close> makes
  the file URI of a path. The fields of a \<^verbatim>\<open>vscode.TextDocument\<close> that the module reads.
\<close>

datatype Uri = Uri (scheme: string) (fsPath: string)

definition Uri_file :: "string \<Rightarrow> Uri" where
  "Uri_file p = Uri ''file'' p"

record TextDocument =
  uri :: Uri
  languageId :: string
  getText :: string

datatype DiagnosticSeverity = Error | Warning | Information | Hint

record Range =
  startLine :: number
  startCol :: number
  endLine :: number
  endCol :: number

text \<open>
  \<^verbatim>\<open>new vscode.Range(startLine, startCharacter, endLine, endCharacter)\<close> of the editor's
  API builds the two positions, start first, and a position refuses a negative line or
  character by throwing; the range keeps the two positions in this order when the start
  is before the end (on an earlier line, or on the same line at an earlier character)
  and swapped otherwise.
\<close>

definition new_Range :: "number \<Rightarrow> number \<Rightarrow> number \<Rightarrow> number \<Rightarrow> js_error + Range" where
  "new_Range sl sc el ec =
     (if isNegative sl then Inl (JsError ''Illegal argument: line must be non-negative'')
      else if isNegative sc then Inl (JsError ''Illegal argument: character must be non-negative'')
      else if isNegative el then Inl (JsError ''Illegal argument: line must be non-negative'')
      else if isNegative ec then Inl (JsError ''Illegal argument: character must be non-negative'')
      else if numLess sl el \<or> (\<not> numLess el sl \<and> numLess sc ec)
        then Inr \<lparr>startLine = sl, startCol = sc, endLine = el, endCol = ec\<rparr>
        else Inr \<lparr>startLine = el, startCol = ec, endLine = sl, endCol = sc\<rparr>)"

record Diagnostic =
  severity :: DiagnosticSeverity
  range' :: Range
  message :: string

record DiagnosticInfo =
  di_uri :: Uri
  di_range :: Range
  di_severity :: DiagnosticSeverity
  errMsg :: string

text \<open>A \<^verbatim>\<open>vscode.DiagnosticCollection\<close>: the diagnostics of each URI that has any.\<close>

type_synonym DiagnosticCollection = "Uri \<rightharpoonup> Diagnostic list"

datatype LogLevel = LogInfo | LogWarning | LogError

section \<open>The environment\<close>

text \<open>
  What the module takes from outside its file: the platform's \<^verbatim>\<open>path\<close> functions, the
  file system as \<^verbatim>\<open>fs.existsSync\<close> sees it, and from the repository's \<^verbatim>\<open>util\<close> and
  \<^verbatim>\<open>consts\<close> modules the compiler's path (\<^verbatim>\<open>getBinPath()\<close>), the configured
  \<^verbatim>\<open>compilation.additionalCommandLineArguments\<close> of a document and \<^verbatim>\<open>langId\<close>.
\<close>

record sys =
  path_isAbsolute :: "string \<Rightarrow> bool"
  path_join :: "string \<Rightarrow> string \<Rightarrow> string"
  path_dirname :: "string \<Rightarrow> string"
  fs_existsSync :: "string \<Rightarrow> bool"
  getBinPath :: string
  additionalCommandLineArguments :: "TextDocument \<Rightarrow> string"
  langId :: string

section \<open>The module's state\<close>

text \<open>
  A spawned child process, as far as the module acts on it: the arguments of
  \<^verbatim>\<open>cp.spawn\<close>, what was written to its standard input, whether \<^verbatim>\<open>kill()\<close> was called
  on it and whether it has closed. \<open>p_doc\<close> is the document its handlers closed over.
\<close>

record Process =
  p_bin :: string
  p_args :: "string list"
  p_cwd :: string
  p_stdin :: string
  p_stdinEnded :: bool
  p_killed :: bool
  p_closed :: bool
  p_doc :: TextDocument

text \<open>
  The three module variables, the \<^verbatim>\<open>lastIndex\<close> of the shared \<^verbatim>\<open>errMsgRegex\<close> object
  and the diagnostic collection the caller passes to every function; then the runtime
  the module acts on: the processes it has spawned (a handle is an index into the list),
  the pending timers (identifier, due time in milliseconds, document of the callback),
  the clock, and what was passed to \<^verbatim>\<open>logger\<close>. An output channel is its lines and
  whether it was shown.
\<close>

record State =
  intellisenseOutputChannel :: "(string list \<times> bool) option"
  intellisenseProcess :: "nat option"
  timeout :: "nat option"
  lastIndex :: nat
  diagCol :: DiagnosticCollection
  processes :: "Process list"
  timers :: "(nat \<times> nat \<times> TextDocument) list"
  nextTimer :: nat
  now :: nat
  logged :: "(string \<times> LogLevel \<times> bool) list"

definition logger :: "string \<Rightarrow> LogLevel \<Rightarrow> bool \<Rightarrow> State \<Rightarrow> State" where
  "logger msg level flag st = st\<lparr>logged := logged st @ [(msg, level, flag)]\<rparr>"

definition initIntellisense :: "State \<Rightarrow> State" where
  "initIntellisense st = st\<lparr>intellisenseOutputChannel := Some ([], False)\<rparr>"

definition outputToChannel :: "string \<Rightarrow> bool \<Rightarrow> State \<Rightarrow> State" where
  "outputToChannel msg show st =
     (case intellisenseOutputChannel st of
        Some (lines, shown) \<Rightarrow>
          st\<lparr>intellisenseOutputChannel := Some (lines @ [msg], shown \<or> show)\<rparr>
      | None \<Rightarrow>
          logger (''Unable to output to Intellisense OutputChannel, '' @ msg) LogWarning True st)"

section \<open>Diagnostics from the compiler's error output\<close>

definition getDiagSeverity :: "string \<Rightarrow> DiagnosticSeverity" where
  "getDiagSeverity s =
     (if s = ''error'' then Error
      else if s = ''warning'' then Warning
      else Error)"

definition addToDiagCol :: "DiagnosticInfo \<Rightarrow> DiagnosticCollection \<Rightarrow> DiagnosticCollection" where
  "addToDiagCol diag col =
     (let diagnostic = \<lparr>severity = di_severity diag, range' = di_range diag, message = errMsg diag\<rparr>;
          currentDiags = (case col (di_uri diag) of None \<Rightarrow> [] | Some ds \<Rightarrow> ds);
          newDiags = currentDiags @ [diagnostic]
      in col(di_uri diag \<mapsto> newDiags))"

definition getUri :: "sys \<Rightarrow> TextDocument \<Rightarrow> string \<Rightarrow> js_error + Uri" where
  "getUri sy doc gotPath =
     (if gotPath = ''-'' then Inr (uri doc)
      else if path_isAbsolute sy gotPath \<and> fs_existsSync sy gotPath then Inr (Uri_file gotPath)
      else if fs_existsSync sy (path_join sy (path_dirname sy (fsPath (uri doc))) gotPath) then
        (let absPath = path_join sy (path_dirname sy (fsPath (uri doc))) gotPath
         in Inr (Uri_file absPath))
      else Inl (JsError (''Error in '' @ [BQ] @ gotPath @ [BQ])))"

text \<open>
  The \<^verbatim>\<open>try\<close> block of one turn of the loop in \<^verbatim>\<open>processIntellisenseErrors\<close>, up to
  the record it hands to \<^verbatim>\<open>addToDiagCol\<close>; \<open>Inl\<close> is the exception thrown on the way.
\<close>

definition mkDiag :: "sys \<Rightarrow> TextDocument \<Rightarrow> captures \<Rightarrow> js_error + DiagnosticInfo" where
  "mkDiag sy doc errGroup =
     (case getUri sy doc (grp errGroup 1) of
        Inl e \<Rightarrow> Inl e
      | Inr u \<Rightarrow>
          (let lineNo = minusOne (parseInt (grp errGroup 2));
               charNo = minusOne (parseInt (grp errGroup 3));
               sev = getDiagSeverity (grp errGroup 4);
               msg = grp errGroup 5
           in case new_Range lineNo (Fin 0) lineNo charNo of
                Inl e \<Rightarrow> Inl e
              | Inr r \<Rightarrow> Inr \<lparr>di_uri = u, di_range = r, di_severity = sev, errMsg = msg\<rparr>))"

text \<open>One turn of the loop: the \<^verbatim>\<open>try\<close> block and its \<^verbatim>\<open>catch\<close>.\<close>

definition loopBody :: "sys \<Rightarrow> string \<Rightarrow> TextDocument \<Rightarrow> captures \<Rightarrow> State \<Rightarrow> State" where
  "loopBody sy output doc errGroup st =
     (case mkDiag sy doc errGroup of
        Inr diag \<Rightarrow> st\<lparr>diagCol := addToDiagCol diag (diagCol st)\<rparr>
      | Inl (JsError m) \<Rightarrow>
          outputToChannel (''Intellisense error: '' @ m @ '', '' @ output) True st)"

text \<open>
  The \<^verbatim>\<open>while\<close> loop of \<^verbatim>\<open>processIntellisenseErrors\<close>: \<^verbatim>\<open>exec\<close> continues from the
  expression's \<^verbatim>\<open>lastIndex\<close> and moves it to the end of the match; the loop ends when
  \<^verbatim>\<open>exec\<close> returns \<^verbatim>\<open>null\<close>, which resets \<^verbatim>\<open>lastIndex\<close>. That the loop ends is
  proved below: a match of \<^verbatim>\<open>errMsgRegex\<close> is never empty, so every turn moves
  \<^verbatim>\<open>lastIndex\<close> forward.
\<close>

function processLoop :: "sys \<Rightarrow> string \<Rightarrow> TextDocument \<Rightarrow> State \<Rightarrow> State" where
  "processLoop sy output doc st =
     (case regex_exec errMsgRegex output (lastIndex st) of
        None \<Rightarrow> st\<lparr>lastIndex := 0\<rparr>
      | Some m \<Rightarrow>
          processLoop sy output doc
            (loopBody sy output doc (groups m) (st\<lparr>lastIndex := endIndex m\<rparr>)))"
  by pat_completeness auto

definition processIntellisenseErrors :: "sys \<Rightarrow> string \<Rightarrow> TextDocument \<Rightarrow> State \<Rightarrow> State" where
  "processIntellisenseErrors sy output doc st = processLoop sy output doc st"

text \<open>
  The matches that the successive calls of \<^verbatim>\<open>exec\<close> find in a text, in order, each
  as its captures; and the collection after the loop has made a record of each, leaving
  out those whose record could not be made.
\<close>

function allMatches :: "string \<Rightarrow> captures list" where
  "allMatches t =
     (case scan errMsgRegex t of
        None \<Rightarrow> []
      | Some (a, b, c) \<Rightarrow> c # allMatches b)"
  by pat_completeness auto

definition collect ::
  "sys \<Rightarrow> TextDocument \<Rightarrow> captures list \<Rightarrow> DiagnosticCollection \<Rightarrow> DiagnosticCollection" where
  "collect sy doc ms col =
     foldl (\<lambda>col c. case mkDiag sy doc c of Inr d \<Rightarrow> addToDiagCol d col | Inl e \<Rightarrow> col) col ms"

section \<open>Debouncing and running the compiler\<close>

definition clearTimeout :: "nat \<Rightarrow> State \<Rightarrow> State" where
  "clearTimeout t st = st\<lparr>timers := filter (\<lambda>(i, due, d). i \<noteq> t) (timers st)\<rparr>"

text \<open>
  \<^verbatim>\<open>triggerIntellisense\<close>; the callback of the new timer is
  \<^verbatim>\<open>execIntellisense(doc, diagCol, context)\<close>, kept as its document.
\<close>

definition triggerIntellisense :: "TextDocument \<Rightarrow> State \<Rightarrow> State" where
  "triggerIntellisense doc st =
     (let st1 = (case timeout st of
                   Some t \<Rightarrow> (clearTimeout t st)\<lparr>timeout := None\<rparr>
                 | None \<Rightarrow> st);
          t' = nextTimer st1
      in st1\<lparr>timers := timers st1 @ [(t', now st1 + 500, doc)],
             nextTimer := Suc t',
             timeout := Some t'\<rparr>)"

definition kill :: "nat \<Rightarrow> State \<Rightarrow> State" where
  "kill h st = st\<lparr>processes := (processes st)[h := (processes st ! h)\<lparr>p_killed := True\<rparr>]\<rparr>"

definition stdin_write :: "nat \<Rightarrow> string \<Rightarrow> State \<Rightarrow> State" where
  "stdin_write h txt st =
     st\<lparr>processes := (processes st)[h := (processes st ! h)\<lparr>p_stdin := p_stdin (processes st ! h) @ txt\<rparr>]\<rparr>"

definition stdin_end :: "nat \<Rightarrow> State \<Rightarrow> State" where
  "stdin_end h st = st\<lparr>processes := (processes st)[h := (processes st ! h)\<lparr>p_stdinEnded := True\<rparr>]\<rparr>"

text \<open>\<^verbatim>\<open>cp.spawn(binPath, args, { cwd })\<close>: a new process, whose handle is returned.\<close>

definition spawn :: "string \<Rightarrow> string list \<Rightarrow> string \<Rightarrow> TextDocument \<Rightarrow> State \<Rightarrow> nat \<times> State" where
  "spawn bin args cwd doc st =
     (length (processes st),
      st\<lparr>processes := processes st @
         [\<lparr>p_bin = bin, p_args = args, p_cwd = cwd, p_stdin = [], p_stdinEnded = False,
           p_killed = False, p_closed = False, p_doc = doc\<rparr>]\<rparr>)"

definition intellisenseArgs :: "string list" where
  "intellisenseArgs = [''--loglevel=WARNING'', ''--define-default=backend=null'', ''-'']"

text \<open>
  \<^verbatim>\<open>execIntellisense\<close>. The configuration and the compiler's path are given by the
  environment, so no statement of the \<^verbatim>\<open>try\<close> block throws and the \<^verbatim>\<open>catch\<close> is not
  reached. The three handlers it registers are \<open>stdoutData\<close>, \<open>stderrData\<close> and
  \<open>closeEvent\<close> below, run when the process's events arrive.
\<close>

definition execIntellisense :: "sys \<Rightarrow> TextDocument \<Rightarrow> State \<Rightarrow> State" where
  "execIntellisense sy doc st =
     (let st1 = st\<lparr>diagCol := Map.empty\<rparr>;
          additionalArgs = split_ws (trim (additionalCommandLineArguments sy doc));
          args = additionalArgs @ intellisenseArgs;
          st2 = (case intellisenseProcess st1 of
                   Some h \<Rightarrow> (kill h st1)\<lparr>intellisenseProcess := None\<rparr>
                 | None \<Rightarrow> st1);
          (h, st3) = spawn (getBinPath sy) args (path_dirname sy (fsPath (uri doc))) doc st2;
          st4 = st3\<lparr>intellisenseProcess := Some h\<rparr>;
          st5 = stdin_write h (getText doc) st4
      in stdin_end h st5)"

definition stdoutData :: "nat \<Rightarrow> string \<Rightarrow> State \<Rightarrow> State" where
  "stdoutData h data st = logger (''Intellisense: no errors, '' @ data) LogInfo True st"

definition stderrData :: "sys \<Rightarrow> nat \<Rightarrow> string \<Rightarrow> State \<Rightarrow> State" where
  "stderrData sy h data st = processIntellisenseErrors sy data (p_doc (processes st ! h)) st"

text \<open>The \<^verbatim>\<open>close\<close> handler; \<open>code\<close> is the exit code as the message prints it.\<close>

definition closeEvent :: "nat \<Rightarrow> string \<Rightarrow> State \<Rightarrow> State" where
  "closeEvent h code st =
     (logger (''Intellisense process exited with code '' @ code) LogInfo True st)
       \<lparr>intellisenseProcess := None\<rparr>"

section \<open>Subscriptions and the events of the runtime\<close>

definition onDidChangeActiveTextEditor :: "sys \<Rightarrow> TextDocument option \<Rightarrow> State \<Rightarrow> State" where
  "onDidChangeActiveTextEditor sy editor st =
     (case editor of
        Some doc \<Rightarrow> if languageId doc = langId sy then triggerIntellisense doc st else st
      | None \<Rightarrow> st)"

definition onDidChangeTextDocument :: "sys \<Rightarrow> TextDocument \<Rightarrow> State \<Rightarrow> State" where
  "onDidChangeTextDocument sy doc st =
     (if languageId doc = langId sy then triggerIntellisense doc st else st)"

definition onDidCloseTextDocument :: "TextDocument \<Rightarrow> State \<Rightarrow> State" where
  "onDidCloseTextDocument doc st = st\<lparr>diagCol := (diagCol st)(uri doc := None)\<rparr>"

definition subscribeIntellisense :: "sys \<Rightarrow> TextDocument option \<Rightarrow> State \<Rightarrow> State" where
  "subscribeIntellisense sy activeTextEditor st =
     (let st1 = initIntellisense st
      in case activeTextEditor of
           Some doc \<Rightarrow> if languageId doc = langId sy then triggerIntellisense doc st1 else st1
         | None \<Rightarrow> st1)"

text \<open>
  The runtime. When \<open>d\<close> milliseconds pass, every timer that is due by then fires, in
  the order the timers were set, and runs its callback; a timer never fires before it
  is due. A process that closes is marked closed before its \<^verbatim>\<open>close\<close> handler runs;
  data and close events come only from a process that was spawned and has not closed.
\<close>

definition fireTimers :: "sys \<Rightarrow> State \<Rightarrow> State" where
  "fireTimers sy st =
     (let due = filter (\<lambda>(i, t, d). t \<le> now st) (timers st);
          st1 = st\<lparr>timers := filter (\<lambda>(i, t, d). \<not> t \<le> now st) (timers st)\<rparr>
      in foldl (\<lambda>s (i, t, d). execIntellisense sy d s) st1 due)"

definition elapse :: "sys \<Rightarrow> nat \<Rightarrow> State \<Rightarrow> State" where
  "elapse sy d st = fireTimers sy (st\<lparr>now := now st + d\<rparr>)"

datatype Event =
    ChangeActiveTextEditor "TextDocument option"
  | ChangeTextDocument TextDocument
  | CloseTextDocument TextDocument
  | Elapse nat
  | StdoutData nat string
  | StderrData nat string
  | Close nat string

definition running :: "State \<Rightarrow> nat \<Rightarrow> bool" where
  "running st h = (h < length (processes st) \<and> \<not> p_closed (processes st ! h))"

fun step :: "sys \<Rightarrow> State \<Rightarrow> Event \<Rightarrow> State" where
  "step sy st (ChangeActiveTextEditor editor) = onDidChangeActiveTextEditor sy editor st"
| "step sy st (ChangeTextDocument doc) = onDidChangeTextDocument sy doc st"
| "step sy st (CloseTextDocument doc) = onDidCloseTextDocument doc st"
| "step sy st (Elapse d) = elapse sy d st"
| "step sy st (StdoutData h data) = (if running st h then stdoutData h data st else st)"
| "step sy st (StderrData h data) = (if running st h then stderrData sy h data st else st)"
| "step sy st (Close h code) =
     (if running st h
      then closeEvent h code
             (st\<lparr>processes := (processes st)[h := (processes st ! h)\<lparr>p_closed := True\<rparr>]\<rparr>)
      else st)"

definition init :: State where
  "init = \<lparr>intellisenseOutputChannel = None, intellisenseProcess = None, timeout = None,
            lastIndex = 0, diagCol = Map.empty, processes = [], timers = [], nextTimer = 0,
            now = 0, logged = []\<rparr>"

text \<open>
  The module after activation with the editor \<open>activeTextEditor\<close>, then the events
  \<open>evs\<close> in order.
\<close>

definition run :: "sys \<Rightarrow> TextDocument option \<Rightarrow> Event list \<Rightarrow> State" where
  "run sy activeTextEditor evs = foldl (step sy) (subscribeIntellisense sy activeTextEditor init) evs"

text \<open>
  A sequence of triggers, each with the time that passes after it before the next
  event; and the state of the timers that every reachable state has: the only timer
  that can be pending is the one the variable \<^verbatim>\<open>timeout\<close> holds.
\<close>

fun burst :: "sys \<Rightarrow> (TextDocument \<times> nat) list \<Rightarrow> State \<Rightarrow> State" where
  "burst sy [] st = st"
| "burst sy ((d, g) # ds) st = burst sy ds (elapse sy g (triggerIntellisense d st))"

definition pendingOk :: "State \<Rightarrow> bool" where
  "pendingOk st =
     (timers st = [] \<or> (\<exists>t due d. timers st = [(t, due, d)] \<and> timeout st = Some t))"

text \<open>
  The processes that run: spawned, not closed, and never asked to stop.
\<close>

definition liveProcesses :: "State \<Rightarrow> nat list" where
  "liveProcesses st =
     filter (\<lambda>h. \<not> p_killed (processes st ! h) \<and> \<not> p_closed (processes st ! h))
       [0 ..< length (processes st)]"

section \<open>A sample environment\<close>

text \<open>
  A POSIX machine with three files, a configured argument string with white space
  around and between its two arguments, a document and a state with diagnostics of two
  files: concrete inputs on which the theorems below are instantiated.
\<close>

definition demo_sys :: sys where
  "demo_sys =
     \<lparr>path_isAbsolute = (\<lambda>p. take 1 p = ''/''),
      path_join = (\<lambda>d p. d @ ''/'' @ p),
      path_dirname = (\<lambda>p. rev (tl (dropWhile (\<lambda>x. x \<noteq> CHR ''/'') (rev p)))),
      fs_existsSync = (\<lambda>p. p \<in> set [''/home/u/score.ly'', ''/abs/path.ly'', ''/home/u/inc.ly'']),
      getBinPath = ''lilypond'',
      additionalCommandLineArguments = (\<lambda>d. '' -dno-point-and-click   --pdf ''),
      langId = ''lilypond''\<rparr>"

definition demo_doc :: TextDocument where
  "demo_doc = \<lparr>uri = Uri_file ''/home/u/score.ly'', languageId = ''lilypond'', getText = ''{ c }''\<rparr>"

definition demo_diag :: Diagnostic where
  "demo_diag = \<lparr>severity = Warning,
                 range' = \<lparr>startLine = Fin 1, startCol = Fin 0, endLine = Fin 1, endCol = Fin 2\<rparr>,
                 message = ''w''\<rparr>"

definition demo_state :: State where
  "demo_state =
     init\<lparr>intellisenseOutputChannel := Some ([], False),
          diagCol := [Uri_file ''/home/u/score.ly'' \<mapsto> [demo_diag],
                      Uri_file ''/home/u/inc.ly'' \<mapsto> [demo_diag, demo_diag]]\<rparr>"

text \<open>
  A chunk of three error lines; the file of the second does not exist.
\<close>

definition demo_chunk :: string where
  "demo_chunk = (''/abs/path.ly:12:5: error: bad note'' @ [LF]) @ ''/abs/none.ly:1:1: error: x'' @
     ([LF] @ ''-:2:3: warning: w'')"

text \<open>
  Three triggers with three versions of the document, 100 ms and 499 ms apart, then
  quiet.
\<close>

definition demo_burst :: "(TextDocument \<times> nat) list" where
  "demo_burst =
     [(demo_doc, 100),
      (demo_doc\<lparr>getText := ''{ c d }''\<rparr>, 499),
      (demo_doc\<lparr>getText := ''{ c d e }''\<rparr>, 500)]"

text \<open>
  Three edits, each followed by the quiet interval; the process of the first run,
  killed by the second run, closes before the third edit.
\<close>

definition stale_close_trace :: "Event list" where
  "stale_close_trace =
     [ChangeTextDocument demo_doc, Elapse 500,
      ChangeTextDocument demo_doc, Elapse 500,
      Close 0 ''null'',
      ChangeTextDocument demo_doc, Elapse 500]"

section \<open>Facts about the numbers\<close>

text \<open>
  Up to \<open>2^53\<close> the Number for an integer is the integer, and so are the results of
  \<^verbatim>\<open>parseInt\<close> and of \<^verbatim>\<open>x - 1\<close>.
\<close>

declare bitLength.simps [simp del]

lemma bitLength_le: "n < 2 ^ k \<Longrightarrow> bitLength n \<le> k"
proof (induction k arbitrary: n)
  case 0
  then show ?case by (subst bitLength.simps) simp
next
  case (Suc k)
  show ?case
  proof (cases "n = 0")
    case True
    then show ?thesis by (subst bitLength.simps) simp
  next
    case False
    from Suc.prems have "n div 2 < 2 ^ k" by simp
    then have "bitLength (n div 2) \<le> k" by (rule Suc.IH)
    then show ?thesis using False by (subst bitLength.simps) simp
  qed
qed

lemma round53_small: "n < 2 ^ 53 \<Longrightarrow> round53 n = n"
  using bitLength_le[of n 53] by (simp add: round53_def)

lemma round53_2p53: "round53 (2 ^ 53) = 2 ^ 53"
  by code_simp

lemma round53_exact:
  assumes "n \<le> 2 ^ 53"
  shows "round53 n = n"
proof (cases "n = 2 ^ 53")
  case True
  then show ?thesis by (simp only: round53_2p53)
next
  case False
  with assms have "n < 2 ^ 53" by simp
  then show ?thesis by (rule round53_small)
qed

lemma toNumber_exact:
  assumes "\<bar>i\<bar> \<le> 2 ^ 53"
  shows "toNumber i = Fin i"
proof -
  have r: "round53 \<bar>i\<bar> = \<bar>i\<bar>" using assms by (rule round53_exact)
  have "(2::int) ^ 53 < 2 ^ 1024" by simp
  with assms have "\<not> 2 ^ 1024 \<le> \<bar>i\<bar>" by linarith
  then show ?thesis unfolding toNumber_def r Let_def by auto
qed

lemma digitVal_nonneg: "isDigit x \<Longrightarrow> 0 \<le> digitVal x"
  unfolding isDigit_def digitVal_def
  by (simp only: set_simps insert_iff empty_iff) (elim disjE, simp_all)

lemma decimal_nonneg:
  "\<forall>x\<in>set w. isDigit x \<Longrightarrow> 0 \<le> a \<Longrightarrow> 0 \<le> foldl (\<lambda>a x. 10 * a + digitVal x) a w"
proof (induction w arbitrary: a)
  case Nil
  then show ?case by simp
next
  case (Cons x w)
  have x: "0 \<le> digitVal x" using Cons.prems(1) by (simp add: digitVal_nonneg)
  have w: "\<forall>x\<in>set w. isDigit x" using Cons.prems(1) by simp
  have "0 \<le> 10 * a + digitVal x" using x Cons.prems(2) by simp
  from Cons.IH[OF w this] show ?case by simp
qed

lemma parseInt_digits:
  assumes "digits w" and "decimal w \<le> 2 ^ 53"
  shows "parseInt w = Fin (decimal w)"
proof -
  have t: "takeWhile isDigit w = w" using assms(1) by (simp add: digits_def)
  have "0 \<le> decimal w" using assms(1) decimal_nonneg[of w 0] by (simp add: digits_def decimal_def)
  then have "\<bar>decimal w\<bar> \<le> 2 ^ 53" using assms(2) by simp
  then show ?thesis by (simp add: parseInt_def t toNumber_exact)
qed

lemma minusOne_exact:
  assumes "1 \<le> n" and "n \<le> 2 ^ 53"
  shows "minusOne (Fin n) = Fin (n - 1)"
  using assms by (simp add: toNumber_exact)

section \<open>Facts about the matcher\<close>

lemma rmatch_suffix:
  "(s', c') \<in> set (rmatch r (s, c)) \<Longrightarrow> suffix s' s"
proof (induction r arbitrary: s c s' c')
  case (One cs)
  then show ?case by (auto split: list.splits if_splits simp: suffix_Cons)
next
  case (Str w)
  then show ?case by (auto split: if_splits simp: suffix_drop)
next
  case (Plus cs)
  then show ?case by (auto simp: suffix_drop)
next
  case (Seq r1 r2)
  then show ?case by (fastforce intro: suffix_order.trans)
next
  case (Alt r1 r2)
  then show ?case by auto
next
  case (Group n r)
  then show ?case by auto
qed

lemma in_rmatch_One:
  "(s', c') \<in> set (rmatch (One cs) (s, c)) \<longleftrightarrow> (\<exists>x. s = x # s' \<and> accepts cs x \<and> c' = c)"
  by (auto split: list.splits)

lemma in_rmatch_Str:
  "(s', c') \<in> set (rmatch (Str w) (s, c)) \<longleftrightarrow> s = w @ s' \<and> c' = c"
  by (auto split: if_splits) (metis append_take_drop_id)

lemma in_rmatch_Plus:
  "(s', c') \<in> set (rmatch (Plus cs) (s, c)) \<longleftrightarrow>
     c' = c \<and> (\<exists>w. w \<noteq> [] \<and> s = w @ s' \<and> (\<forall>x\<in>set w. accepts cs x))"
proof
  assume "(s', c') \<in> set (rmatch (Plus cs) (s, c))"
  then obtain n where n: "1 \<le> n" "n \<le> length (takeWhile (accepts cs) s)" "s' = drop n s" "c' = c"
    by auto
  have "take n s = take n (takeWhile (accepts cs) s)"
    using n(2) by (metis append_eq_conv_conj takeWhile_dropWhile_id take_append min.absorb2 length_take 
         append_take_drop_id take_all_iff order_refl take_take)
  then have "\<forall>x\<in>set (take n s). accepts cs x"
    by (metis in_set_takeD set_takeWhileD)
  moreover have "take n s \<noteq> []" using n(1,2) 
    by (metis One_nat_def Suc_le_eq length_greater_0_conv length_takeWhile_le less_le_trans not_less take_eq_Nil order.strict_trans1 le_zero_eq not_one_le_zero)
  ultimately show "c' = c \<and> (\<exists>w. w \<noteq> [] \<and> s = w @ s' \<and> (\<forall>x\<in>set w. accepts cs x))"
    using n(3,4) by (metis append_take_drop_id)
next
  assume "c' = c \<and> (\<exists>w. w \<noteq> [] \<and> s = w @ s' \<and> (\<forall>x\<in>set w. accepts cs x))"
  then obtain w where w: "c' = c" "w \<noteq> []" "s = w @ s'" "\<forall>x\<in>set w. accepts cs x" by blast
  have "length w \<le> length (takeWhile (accepts cs) s)"
    using w(3,4) by (simp add: takeWhile_append2)
  moreover have "1 \<le> length w" using w(2) by (cases w) auto
  ultimately have "length w \<in> set (rev [1 ..< Suc (length (takeWhile (accepts cs) s))])" by auto
  then show "(s', c') \<in> set (rmatch (Plus cs) (s, c))"
    using w(1,3) by (auto simp: image_iff intro!: bexI[where x="length w"])
qed

lemma in_rmatch_Seq:
  "(s', c') \<in> set (rmatch (Seq r1 r2) (s, c)) \<longleftrightarrow>
     (\<exists>s1 c1. (s1, c1) \<in> set (rmatch r1 (s, c)) \<and> (s', c') \<in> set (rmatch r2 (s1, c1)))"
  by auto

lemma in_rmatch_Alt:
  "(s', c') \<in> set (rmatch (Alt r1 r2) (s, c)) \<longleftrightarrow>
     (s', c') \<in> set (rmatch r1 (s, c)) \<or> (s', c') \<in> set (rmatch r2 (s, c))"
  by auto

lemma in_rmatch_Group:
  "(s', c') \<in> set (rmatch (Group n r) (s, c)) \<longleftrightarrow>
     (\<exists>c1 w. (s', c1) \<in> set (rmatch r (s, c)) \<and> s = w @ s' \<and> c' = c1(n \<mapsto> w))"
proof
  assume "(s', c') \<in> set (rmatch (Group n r) (s, c))"
  then obtain c1 where c1: "(s', c1) \<in> set (rmatch r (s, c))"
      "c' = c1(n \<mapsto> take (length s - length s') s)"
    by auto
  from rmatch_suffix[OF c1(1)] obtain w where "s = w @ s'"
    by (auto simp: suffix_def)
  with c1 show "\<exists>c1 w. (s', c1) \<in> set (rmatch r (s, c)) \<and> s = w @ s' \<and> c' = c1(n \<mapsto> w)"
    by auto
next
  assume "\<exists>c1 w. (s', c1) \<in> set (rmatch r (s, c)) \<and> s = w @ s' \<and> c' = c1(n \<mapsto> w)"
  then show "(s', c') \<in> set (rmatch (Group n r) (s, c))"
    by (auto simp: image_iff intro!: bexI)
qed

lemma in_rmatch_Group_Plus:
  "(s', c') \<in> set (rmatch (Group n (Plus cs)) (s, c)) \<longleftrightarrow>
     (\<exists>w. w \<noteq> [] \<and> s = w @ s' \<and> (\<forall>x\<in>set w. accepts cs x) \<and> c' = c(n \<mapsto> w))"
  unfolding in_rmatch_Group in_rmatch_Plus by auto

lemma in_rmatch_Group_Alt_Str:
  "(s', c') \<in> set (rmatch (Group n (Alt (Str a) (Str b))) (s, c)) \<longleftrightarrow>
     (\<exists>k. (k = a \<or> k = b) \<and> s = k @ s' \<and> c' = c(n \<mapsto> k))"
  unfolding in_rmatch_Group in_rmatch_Alt in_rmatch_Str by auto

lemma in_rmatch_Seq_Str:
  "(s', c') \<in> set (rmatch (Seq (Str w) r) (s, c)) \<longleftrightarrow>
     (\<exists>s1. s = w @ s1 \<and> (s', c') \<in> set (rmatch r (s1, c)))"
  unfolding in_rmatch_Seq in_rmatch_Str by auto

lemma in_rmatch_Seq_Group_Plus:
  "(s', c') \<in> set (rmatch (Seq (Group n (Plus cs)) r) (s, c)) \<longleftrightarrow>
     (\<exists>w s1. w \<noteq> [] \<and> s = w @ s1 \<and> (\<forall>x\<in>set w. accepts cs x) \<and>
        (s', c') \<in> set (rmatch r (s1, c(n \<mapsto> w))))"
  unfolding in_rmatch_Seq in_rmatch_Group_Plus by auto

lemma in_rmatch_Seq_Group_Alt_Str:
  "(s', c') \<in> set (rmatch (Seq (Group n (Alt (Str a) (Str b))) r) (s, c)) \<longleftrightarrow>
     (\<exists>k s1. (k = a \<or> k = b) \<and> s = k @ s1 \<and> (s', c') \<in> set (rmatch r (s1, c(n \<mapsto> k))))"
  unfolding in_rmatch_Seq in_rmatch_Group_Alt_Str by auto

lemma in_rmatch_errMsgRegex:
  "(s', c') \<in> set (rmatch errMsgRegex (s, c)) \<longleftrightarrow>
     (\<exists>g1 g2 g3 k g5.
        s = g1 @ '':'' @ g2 @ '':'' @ g3 @ '': '' @ k @ '': '' @ g5 @ s' \<and>
        lineText g1 \<and> digits g2 \<and> digits g3 \<and> (k = ''error'' \<or> k = ''warning'') \<and> lineText g5 \<and>
        c' = c(1 \<mapsto> g1, 2 \<mapsto> g2, 3 \<mapsto> g3, 4 \<mapsto> k, 5 \<mapsto> g5))"
  unfolding errMsgRegex_def seq.simps in_rmatch_Seq_Group_Plus in_rmatch_Seq_Str
    in_rmatch_Seq_Group_Alt_Str in_rmatch_Group_Plus lineText_def digits_def
  apply simp
  apply (rule iffI)
   apply (elim exE conjE)
   apply (rule_tac x=w in exI, rule_tac x=wa in exI, rule_tac x=wb in exI,
      rule_tac x=k in exI, rule_tac x=wc in exI)
   apply simp
  apply (elim exE conjE)
  apply (rule_tac x=g1 in exI, simp)
  apply (rule_tac x=g2 in exI, simp)
  apply (rule_tac x=g3 in exI, simp)
  apply (rule_tac x=k in exI, simp)
  done

lemma rmatch_errMsgRegex_shorter:
  assumes "(s', c') \<in> set (rmatch errMsgRegex (s, c))"
  shows "length s' < length s"
  using assms unfolding in_rmatch_errMsgRegex by auto

lemma scan_SomeD:
  "scan r t = Some (a, b, c) \<Longrightarrow>
     suffix a t \<and> rmatch r (a, Map.empty) \<noteq> [] \<and> hd (rmatch r (a, Map.empty)) = (b, c) \<and>
     (\<forall>a'. suffix a' t \<and> length a < length a' \<longrightarrow> rmatch r (a', Map.empty) = [])"
proof (induction t)
  case Nil
  then show ?case by (auto split: list.splits)
next
  case (Cons x xs)
  show ?case
  proof (cases "rmatch r (x # xs, Map.empty)")
    case Nil
    with Cons.prems have sc: "scan r xs = Some (a, b, c)" by simp
    note ih = Cons.IH[OF sc]
    have "length a \<le> length xs" using ih by (auto dest: suffix_length_le)
    then show ?thesis using ih Nil
      by (auto simp: suffix_Cons)
  next
    case (Cons p ps)
    with Cons.prems have "a = x # xs" "p = (b, c)" by (auto split: prod.splits)
    then show ?thesis using Cons by (auto dest: suffix_length_le)
  qed
qed

lemma scan_None_iff:
  "scan r t = None \<longleftrightarrow> (\<forall>a. suffix a t \<longrightarrow> rmatch r (a, Map.empty) = [])"
proof (induction t)
  case Nil
  then show ?case by (auto split: list.splits)
next
  case (Cons x xs)
  then show ?case by (auto simp: suffix_Cons split: list.splits)
qed

lemma scan_errMsgRegex_shorter:
  assumes "scan errMsgRegex t = Some (a, b, c)"
  shows "length b < length a" and "length a \<le> length t"
proof -
  from scan_SomeD[OF assms] have s: "suffix a t" "rmatch errMsgRegex (a, Map.empty) \<noteq> []"
      "hd (rmatch errMsgRegex (a, Map.empty)) = (b, c)" by auto
  then have "(b, c) \<in> set (rmatch errMsgRegex (a, Map.empty))"
    by (metis hd_in_set)
  then show "length b < length a" by (rule rmatch_errMsgRegex_shorter)
  show "length a \<le> length t" using s(1) by (rule suffix_length_le)
qed

lemma regex_exec_errMsgRegex_bounds:
  assumes "regex_exec errMsgRegex s i = Some m"
  shows "i \<le> index m" and "index m < endIndex m" and "endIndex m \<le> length s"
proof -
  from assms have i: "i \<le> length s"
    by (auto simp: regex_exec_def split: if_splits)
  from assms obtain a b c where sc: "scan errMsgRegex (drop i s) = Some (a, b, c)"
    and m: "m = \<lparr>index = length s - length a, endIndex = length s - length b, groups = c\<rparr>"
    by (auto simp: regex_exec_def split: if_splits option.splits)
  from scan_errMsgRegex_shorter[OF sc] have "length b < length a" "length a \<le> length s - i"
    by auto
  with i m show "i \<le> index m" and "index m < endIndex m" and "endIndex m \<le> length s"
    by auto
qed

section \<open>Termination of the loop\<close>

lemma lastIndex_loopBody:
  "lastIndex (loopBody sy output doc errGroup st) = lastIndex st"
  by (auto simp: loopBody_def outputToChannel_def logger_def
      split: sum.splits js_error.splits option.splits prod.splits)

termination processLoop
proof (relation "measure (\<lambda>(sy, output, doc, st). Suc (length output) - lastIndex st)")
  show "wf (measure (\<lambda>(sy, output, doc, st). Suc (length output) - lastIndex st))"
    by simp
next
  fix sy :: sys and out :: string and doc :: TextDocument and st :: State and m
  assume m: "regex_exec errMsgRegex out (lastIndex st) = Some m"
  from regex_exec_errMsgRegex_bounds[OF m]
  have "lastIndex st < endIndex m" "endIndex m \<le> length out" by auto
  then show "((sy, out, doc, loopBody sy out doc (groups m) (st\<lparr>lastIndex := endIndex m\<rparr>)),
       (sy, out, doc, st))
      \<in> measure (\<lambda>(sy, output, doc, st). Suc (length output) - lastIndex st)"
    by (simp add: lastIndex_loopBody)
qed

section \<open>Facts about the model\<close>

lemma processLoop_None:
  "regex_exec errMsgRegex out (lastIndex st) = None \<Longrightarrow>
     processLoop sy out doc st = st\<lparr>lastIndex := 0\<rparr>"
  by (subst processLoop.simps) simp

lemma scan_errMsgRegexD:
  assumes "scan errMsgRegex t = Some (a, b, c)"
  shows "\<exists>pre g1 g2 g3 k g5.
      t = pre @ a \<and>
      a = g1 @ '':'' @ g2 @ '':'' @ g3 @ '': '' @ k @ '': '' @ g5 @ b \<and>
      lineText g1 \<and> digits g2 \<and> digits g3 \<and> (k = ''error'' \<or> k = ''warning'') \<and> lineText g5 \<and>
      c = [1 \<mapsto> g1, 2 \<mapsto> g2, 3 \<mapsto> g3, 4 \<mapsto> k, 5 \<mapsto> g5]"
proof -
  from scan_SomeD[OF assms] have s: "suffix a t" "rmatch errMsgRegex (a, Map.empty) \<noteq> []"
      "hd (rmatch errMsgRegex (a, Map.empty)) = (b, c)" by auto
  then have "(b, c) \<in> set (rmatch errMsgRegex (a, Map.empty))"
    by (metis hd_in_set)
  then show ?thesis using s(1) unfolding in_rmatch_errMsgRegex suffix_def by blast
qed

lemma regex_exec_errMsgRegexD:
  assumes "regex_exec errMsgRegex s i = Some m"
  shows "\<exists>g1 g2 g3 k g5.
      drop (index m) s =
        g1 @ '':'' @ g2 @ '':'' @ g3 @ '': '' @ k @ '': '' @ g5 @ drop (endIndex m) s \<and>
      lineText g1 \<and> digits g2 \<and> digits g3 \<and> (k = ''error'' \<or> k = ''warning'') \<and> lineText g5 \<and>
      groups m = [1 \<mapsto> g1, 2 \<mapsto> g2, 3 \<mapsto> g3, 4 \<mapsto> k, 5 \<mapsto> g5]"
proof -
  from assms have i: "i \<le> length s"
    by (simp add: regex_exec_def split: if_splits)
  with assms obtain a b c where sc: "scan errMsgRegex (drop i s) = Some (a, b, c)"
    and m: "m = \<lparr>index = length s - length a, endIndex = length s - length b, groups = c\<rparr>"
    by (cases "scan errMsgRegex (drop i s)") (auto simp: regex_exec_def)
  from scan_errMsgRegexD[OF sc] obtain pre g1 g2 g3 k g5 where d:
    "drop i s = pre @ a"
    "a = g1 @ '':'' @ g2 @ '':'' @ g3 @ '': '' @ k @ '': '' @ g5 @ b"
    "lineText g1" "digits g2" "digits g3" "k = ''error'' \<or> k = ''warning''" "lineText g5"
    "c = [1 \<mapsto> g1, 2 \<mapsto> g2, 3 \<mapsto> g3, 4 \<mapsto> k, 5 \<mapsto> g5]"
    by (elim exE conjE)
  have "s = (take i s @ pre) @ a"
    using d(1) append_take_drop_id[of i s] by simp
  then have sa: "suffix a s" by (rule suffixI)
  have "a = (g1 @ '':'' @ g2 @ '':'' @ g3 @ '': '' @ k @ '': '' @ g5) @ b"
    using d(2) by simp
  then have "suffix b a" by (rule suffixI)
  with sa have sb: "suffix b s" by (rule suffix_order.trans[rotated])
  have da: "drop (length s - length a) s = a" using sa
    by (auto simp: suffix_def)
  have db: "drop (length s - length b) s = b" using sb
    by (auto simp: suffix_def)
  have im: "index m = length s - length a" "endIndex m = length s - length b" "groups m = c"
    using m by simp_all
  show ?thesis unfolding im da db
    by (rule exI[of _ g1], rule exI[of _ g2], rule exI[of _ g3], rule exI[of _ k],
        rule exI[of _ g5]) (intro conjI d(2-8))
qed

lemma regex_exec_errMsgRegex_marker:
  assumes "regex_exec errMsgRegex s i = Some m"
  shows "sublist '': error: '' s \<or> sublist '': warning: '' s"
proof -
  from regex_exec_errMsgRegexD[OF assms] obtain g1 g2 g3 k g5 where d:
    "drop (index m) s =
        g1 @ '':'' @ g2 @ '':'' @ g3 @ '': '' @ k @ '': '' @ g5 @ drop (endIndex m) s"
    "k = ''error'' \<or> k = ''warning''"
    by blast
  have "s = (take (index m) s @ g1 @ '':'' @ g2 @ '':'' @ g3) @ ('': '' @ k @ '': '') @
      (g5 @ drop (endIndex m) s)"
    using d(1) by (metis append_take_drop_id append_assoc)
  then have "sublist ('': '' @ k @ '': '') s"
    unfolding sublist_def by blast
  with d(2) show ?thesis by auto
qed

lemma trim_blank:
  assumes "\<forall>x\<in>set s. isWhiteSpace x"
  shows "trim s = []"
proof -
  have d: "dropWhile isWhiteSpace s = []"
    using assms by (induction s) auto
  show ?thesis unfolding trim_def d by simp
qed

lemma processes_execIntellisense:
  "processes (execIntellisense sy doc st) =
     (case intellisenseProcess st of
        Some h \<Rightarrow> (processes st)[h := (processes st ! h)\<lparr>p_killed := True\<rparr>]
      | None \<Rightarrow> processes st) @
     [\<lparr>p_bin = getBinPath sy,
       p_args = split_ws (trim (additionalCommandLineArguments sy doc)) @ intellisenseArgs,
       p_cwd = path_dirname sy (fsPath (uri doc)), p_stdin = getText doc, p_stdinEnded = True,
       p_killed = False, p_closed = False, p_doc = doc\<rparr>]"
  by (auto simp: execIntellisense_def spawn_def kill_def stdin_write_def stdin_end_def Let_def
      split: option.splits)

lemma intellisenseProcess_execIntellisense:
  "intellisenseProcess (execIntellisense sy doc st) = Some (length (processes st))"
  by (auto simp: execIntellisense_def spawn_def kill_def stdin_write_def stdin_end_def Let_def
      split: option.splits)

section \<open>The loop as a fold over the matches of a chunk\<close>

lemma takeWhile_stop:
  "\<not> P x \<Longrightarrow> takeWhile P (s @ x # t) = takeWhile P s"
  by (induction s) auto

lemma take_append_stop:
  assumes "x \<notin> set w"
  shows "take (length w) (s @ x # t) = w \<longleftrightarrow> take (length w) s = w"
proof (cases "length w \<le> length s")
  case True
  then show ?thesis by simp
next
  case False
  then have l: "length s < length w" by simp
  have "take (length w) s \<noteq> w" using l by (metis length_take min.absorb2 nat_less_le order_refl take_all)
  moreover have "x \<in> set (take (length w) (s @ x # t))"
    using l by (cases "length w - length s") auto
  ultimately show ?thesis using assms by metis
qed

lemma rmatch_local:
  "avoids r x \<Longrightarrow>
     rmatch r (s @ x # t, c) = map (\<lambda>(s', c'). (s' @ x # t, c')) (rmatch r (s, c))"
proof (induction r arbitrary: s c)
  case (One cs)
  then show ?case by (cases s) auto
next
  case (Str w)
  then have w: "x \<notin> set w" by simp
  show ?case
  proof (cases "take (length w) s = w")
    case True
    then have "length (take (length w) s) = length w" by simp
    then have "length w \<le> length s" by simp
    then show ?thesis using True take_append_stop[OF w, of s t] by simp
  next
    case False
    then show ?thesis using take_append_stop[OF w, of s t] by simp
  qed
next
  case (Plus cs)
  then have "takeWhile (accepts cs) (s @ x # t) = takeWhile (accepts cs) s"
    by (simp add: takeWhile_stop)
  moreover have "\<And>n. n \<le> length (takeWhile (accepts cs) s) \<Longrightarrow> n - length s = 0"
    using length_takeWhile_le[of "accepts cs" s] by simp
  ultimately show ?case by auto
next
  case (Seq r1 r2)
  then show ?case
    by (simp add: map_concat comp_def case_prod_unfold)
next
  case (Alt r1 r2)
  then show ?case by simp
next
  case (Group n r)
  have "\<And>s' c'. (s', c') \<in> set (rmatch r (s, c)) \<Longrightarrow> length s' \<le> length s"
    by (auto dest!: rmatch_suffix suffix_length_le)
  then show ?case using Group
    by (auto simp: comp_def case_prod_unfold)
qed

lemma avoids_errMsgRegex: "x = LF \<or> x = CR \<Longrightarrow> avoids errMsgRegex x"
  by (auto simp: errMsgRegex_def isDigit_def LF_def CR_def)

lemma rmatch_errMsgRegex_Nil [simp]: "rmatch errMsgRegex ([], c) = []"
  using rmatch_errMsgRegex_shorter[of _ _ "[]" c]
  by (cases "rmatch errMsgRegex ([], c)") (auto simp del: rmatch.simps)

lemma hd_concat_map:
  assumes "concat (map f xs) \<noteq> []"
  shows "\<exists>x\<in>set xs. f x \<noteq> [] \<and> hd (concat (map f xs)) = hd (f x)"
  using assms by (induction xs) (auto simp: hd_append)

lemma hd_rmatch_Seq:
  assumes "rmatch (Seq r1 r2) st \<noteq> []"
  shows "\<exists>mid. rmatch r2 mid \<noteq> [] \<and> hd (rmatch (Seq r1 r2) st) = hd (rmatch r2 mid)"
  using hd_concat_map[of "rmatch r2" "rmatch r1 st"] assms by auto

lemma hd_rmatch_Seq_prop:
  assumes "\<And>mid. rmatch r2 mid \<noteq> [] \<Longrightarrow> P (hd (rmatch r2 mid))"
    and "rmatch (Seq r1 r2) st \<noteq> []"
  shows "P (hd (rmatch (Seq r1 r2) st))"
  using hd_rmatch_Seq[OF assms(2)] assms(1) by auto

lemma hd_rmatch_Group_Plus:
  assumes "rmatch (Group n (Plus cs)) (s, c) \<noteq> []"
  shows "fst (hd (rmatch (Group n (Plus cs)) (s, c))) = dropWhile (accepts cs) s"
proof -
  let ?k = "length (takeWhile (accepts cs) s)"
  from assms have k: "1 \<le> ?k" by (auto split: if_splits)
  then have "rev [1 ..< Suc ?k] = ?k # rev [1 ..< ?k]" by simp
  then show ?thesis by (simp add: dropWhile_eq_drop)
qed

lemma hd_rmatch_errMsgRegex_rest:
  assumes "rmatch errMsgRegex st \<noteq> []"
  shows "fst (hd (rmatch errMsgRegex st)) = [] \<or> hd (fst (hd (rmatch errMsgRegex st))) \<in> {LF, CR}"
proof -
  have last: "\<And>mid. rmatch (Group 5 (Plus (NoneOf [LF, CR]))) mid \<noteq> [] \<Longrightarrow>
      fst (hd (rmatch (Group 5 (Plus (NoneOf [LF, CR]))) mid)) = [] \<or>
      hd (fst (hd (rmatch (Group 5 (Plus (NoneOf [LF, CR]))) mid))) \<in> {LF, CR}"
  proof -
    fix mid :: "string \<times> captures"
    assume a: "rmatch (Group 5 (Plus (NoneOf [LF, CR]))) mid \<noteq> []"
    obtain s c where mid: "mid = (s, c)" by (cases mid)
    have "dropWhile (accepts (NoneOf [LF, CR])) s = [] \<or>
        \<not> accepts (NoneOf [LF, CR]) (hd (dropWhile (accepts (NoneOf [LF, CR])) s))"
      using hd_dropWhile[of "accepts (NoneOf [LF, CR])" s] by blast
    then show "fst (hd (rmatch (Group 5 (Plus (NoneOf [LF, CR]))) mid)) = [] \<or>
      hd (fst (hd (rmatch (Group 5 (Plus (NoneOf [LF, CR]))) mid))) \<in> {LF, CR}"
      using hd_rmatch_Group_Plus[OF a[unfolded mid]] unfolding mid by auto
  qed
  show ?thesis
    using assms unfolding errMsgRegex_def seq.simps
    by (intro hd_rmatch_Seq_prop[where P = "\<lambda>p. fst p = [] \<or> hd (fst p) \<in> {LF, CR}"] last)
qed

text \<open>On a text without line breaks, a match starts at the first character and ends at the last.\<close>

lemma scan_errMsgRegex_line:
  assumes nl: "LF \<notin> set line" "CR \<notin> set line"
    and sc: "scan errMsgRegex line = Some (a, b, c)"
  shows "a = line" and "b = []"
proof -
  from scan_SomeD[OF sc] have s: "suffix a line" "rmatch errMsgRegex (a, Map.empty) \<noteq> []"
    "hd (rmatch errMsgRegex (a, Map.empty)) = (b, c)"
    "\<forall>a'. suffix a' line \<and> length a < length a' \<longrightarrow> rmatch errMsgRegex (a', Map.empty) = []"
    by auto
  from scan_errMsgRegexD[OF sc] obtain pre g1 g2 g3 k g5 where d:
    "line = pre @ a"
    "a = g1 @ '':'' @ g2 @ '':'' @ g3 @ '': '' @ k @ '': '' @ g5 @ b"
    "lineText g1" "digits g2" "digits g3" "k = ''error'' \<or> k = ''warning''" "lineText g5"
    by blast
  have lt: "lineText (pre @ g1)" using d(1,3) nl by (auto simp: lineText_def)
  have "(b, Map.empty(1 \<mapsto> pre @ g1, 2 \<mapsto> g2, 3 \<mapsto> g3, 4 \<mapsto> k, 5 \<mapsto> g5))
      \<in> set (rmatch errMsgRegex (line, Map.empty))"
    unfolding in_rmatch_errMsgRegex
    by (rule exI[of _ "pre @ g1"], rule exI[of _ g2], rule exI[of _ g3], rule exI[of _ k],
        rule exI[of _ g5]) (use d lt in simp)
  then have "rmatch errMsgRegex (line, Map.empty) \<noteq> []" by auto
  with s(4) have "\<not> length a < length line" by auto
  with s(1) show al: "a = line"
    by (metis suffix_length_le le_neq_implies_less suffix_order.eq_iff suffix_def append_eq_append_conv append_Nil length_0_conv)
  have "b = [] \<or> hd b \<in> {LF, CR}"
    using hd_rmatch_errMsgRegex_rest[OF s(2)] s(3) by simp
  moreover have "set b \<subseteq> set line" using d(1,2) by auto
  ultimately show "b = []" using nl by (cases b) auto
qed

termination allMatches
proof (relation "measure length")
  show "wf (measure length)" by simp
next
  fix t :: string and x2 a y b c
  assume "scan errMsgRegex t = Some x2" "(a, y) = x2" "(b, c) = y"
  then have "scan errMsgRegex t = Some (a, b, c)" by simp
  from scan_errMsgRegex_shorter[OF this] show "(b, t) \<in> measure length" by simp
qed

declare allMatches.simps [simp del]

declare processLoop.simps [simp del]

lemma allMatches_Nil [simp]: "allMatches [] = []"
  by (subst allMatches.simps) simp

lemma loopBody_lastIndex_update:
  "loopBody sy out doc c (st\<lparr>lastIndex := e\<rparr>) = (loopBody sy out doc c st)\<lparr>lastIndex := e\<rparr>"
  by (auto simp: loopBody_def outputToChannel_def logger_def
      split: sum.splits js_error.splits option.splits prod.splits)

lemma foldl_loopBody_lastIndex_update:
  "foldl (\<lambda>s c. loopBody sy out doc c s) (st\<lparr>lastIndex := e\<rparr>) ms =
     (foldl (\<lambda>s c. loopBody sy out doc c s) st ms)\<lparr>lastIndex := e\<rparr>"
  by (induction ms arbitrary: st) (simp_all add: loopBody_lastIndex_update)

lemma regex_exec_scan_None:
  assumes "regex_exec errMsgRegex out i = None"
  shows "scan errMsgRegex (drop i out) = None"
proof (cases "length out < i")
  case True
  then show ?thesis by simp
next
  case False
  with assms show ?thesis
    by (auto simp: regex_exec_def split: option.splits)
qed

lemma regex_exec_scan_Some:
  assumes "regex_exec errMsgRegex out i = Some m"
  shows "\<exists>a. scan errMsgRegex (drop i out) = Some (a, drop (endIndex m) out, groups m)"
proof -
  from assms obtain a b c where sc: "scan errMsgRegex (drop i out) = Some (a, b, c)"
    and m: "m = \<lparr>index = length out - length a, endIndex = length out - length b, groups = c\<rparr>"
    by (auto simp: regex_exec_def split: if_splits option.splits)
  from scan_errMsgRegexD[OF sc] obtain pre where "drop i out = pre @ a" "suffix b a"
    by (auto simp: suffix_def)
  then have "suffix b out"
    by (metis suffix_drop suffix_order.trans suffixI)
  then have "drop (length out - length b) out = b"
    by (auto simp: suffix_def)
  with sc m show ?thesis by simp
qed

lemma processLoop_fold:
  "processLoop sy out doc st =
     (foldl (\<lambda>s c. loopBody sy out doc c s) st (allMatches (drop (lastIndex st) out)))
       \<lparr>lastIndex := 0\<rparr>"
proof (induction sy out doc st rule: processLoop.induct)
  case (1 sy out doc st)
  show ?case
  proof (cases "regex_exec errMsgRegex out (lastIndex st)")
    case None
    from regex_exec_scan_None[OF None] have "allMatches (drop (lastIndex st) out) = []"
      by (subst allMatches.simps) simp
    then show ?thesis using None by (subst processLoop.simps) simp
  next
    case (Some m)
    from regex_exec_scan_Some[OF Some] obtain a where
      sc: "scan errMsgRegex (drop (lastIndex st) out) = Some (a, drop (endIndex m) out, groups m)"
      by blast
    have am: "allMatches (drop (lastIndex st) out) = groups m # allMatches (drop (endIndex m) out)"
      using sc by (subst allMatches.simps) simp
    have "processLoop sy out doc st =
        processLoop sy out doc (loopBody sy out doc (groups m) (st\<lparr>lastIndex := endIndex m\<rparr>))"
      using Some by (subst processLoop.simps) simp
    also have "\<dots> =
        (foldl (\<lambda>s c. loopBody sy out doc c s)
           (loopBody sy out doc (groups m) (st\<lparr>lastIndex := endIndex m\<rparr>))
           (allMatches (drop (endIndex m) out)))\<lparr>lastIndex := 0\<rparr>"
      using "1.IH"[OF Some] by (simp add: lastIndex_loopBody)
    also have "\<dots> =
        (foldl (\<lambda>s c. loopBody sy out doc c s) st (allMatches (drop (lastIndex st) out)))
          \<lparr>lastIndex := 0\<rparr>"
      by (simp add: am loopBody_lastIndex_update foldl_loopBody_lastIndex_update)
    finally show ?thesis .
  qed
qed

lemma diagCol_loopBody:
  "diagCol (loopBody sy out doc c st) =
     (case mkDiag sy doc c of Inr d \<Rightarrow> addToDiagCol d (diagCol st) | Inl e \<Rightarrow> diagCol st)"
  by (auto simp: loopBody_def outputToChannel_def logger_def
      split: sum.splits js_error.splits option.splits prod.splits)

lemma diagCol_foldl_loopBody:
  "diagCol (foldl (\<lambda>s c. loopBody sy out doc c s) st ms) = collect sy doc ms (diagCol st)"
  unfolding collect_def
  by (induction ms arbitrary: st) (simp_all add: diagCol_loopBody split: sum.splits)

lemma diagCol_processIntellisenseErrors:
  "diagCol (processIntellisenseErrors sy out doc st) =
     collect sy doc (allMatches (drop (lastIndex st) out)) (diagCol st)"
  by (simp add: processIntellisenseErrors_def processLoop_fold diagCol_foldl_loopBody)

lemma lastIndex_processIntellisenseErrors:
  "lastIndex (processIntellisenseErrors sy out doc st) = 0"
  by (simp add: processIntellisenseErrors_def processLoop_fold)

lemma collect_append:
  "collect sy doc (ms @ ms') col = collect sy doc ms' (collect sy doc ms col)"
  by (simp add: collect_def)

lemma scan_local_None:
  assumes x: "x = LF \<or> x = CR"
  shows "scan errMsgRegex a = None \<Longrightarrow> scan errMsgRegex (a @ x # b) = scan errMsgRegex b"
proof (induction a)
  case Nil
  have "rmatch errMsgRegex (x # b, Map.empty) = []"
    using rmatch_local[OF avoids_errMsgRegex[OF x], of "[]" b Map.empty]
    by (simp del: rmatch.simps)
  then show ?case by (cases b) (simp_all del: rmatch.simps)
next
  case (Cons y ys)
  from Cons.prems have n: "rmatch errMsgRegex (y # ys, Map.empty) = []" "scan errMsgRegex ys = None"
    by (auto split: list.splits simp del: rmatch.simps)
  have "rmatch errMsgRegex ((y # ys) @ x # b, Map.empty) = []"
    using rmatch_local[OF avoids_errMsgRegex[OF x], of "y # ys" b Map.empty] n(1)
    by (simp del: rmatch.simps)
  then show ?case using Cons.IH[OF n(2)] by (simp del: rmatch.simps)
qed

lemma scan_local_Some:
  assumes x: "x = LF \<or> x = CR"
  shows "scan errMsgRegex a = Some (a0, b0, c) \<Longrightarrow>
    scan errMsgRegex (a @ x # b) = Some (a0 @ x # b, b0 @ x # b, c)"
proof (induction a)
  case Nil
  then show ?case by (simp del: rmatch.simps)
next
  case (Cons y ys)
  have loc: "rmatch errMsgRegex ((y # ys) @ x # b, Map.empty) =
      map (\<lambda>(s', c'). (s' @ x # b, c')) (rmatch errMsgRegex (y # ys, Map.empty))"
    by (rule rmatch_local[OF avoids_errMsgRegex[OF x]])
  show ?case
  proof (cases "rmatch errMsgRegex (y # ys, Map.empty)")
    case Nil
    with Cons.prems have "scan errMsgRegex ys = Some (a0, b0, c)" by (simp del: rmatch.simps)
    from Cons.IH[OF this] show ?thesis using loc Nil by (simp del: rmatch.simps)
  next
    case (Cons p ps)
    with Cons.prems have "a0 = y # ys" "p = (b0, c)"
      by (auto split: prod.splits simp del: rmatch.simps)
    then show ?thesis using loc Cons by (simp del: rmatch.simps)
  qed
qed

lemma allMatches_append_break:
  assumes x: "x = LF \<or> x = CR"
  shows "allMatches (a @ x # b) = allMatches a @ allMatches b"
proof (induction a rule: length_induct)
  case (1 a)
  show ?case
  proof (cases "scan errMsgRegex a")
    case None
    then have "allMatches a = []" by (subst allMatches.simps) simp
    moreover have "allMatches (a @ x # b) = allMatches b"
      using scan_local_None[OF x None, of b]
      by (subst allMatches.simps, subst (2) allMatches.simps) simp
    ultimately show ?thesis by simp
  next
    case (Some p)
    obtain a0 b0 c where p: "p = (a0, b0, c)" by (cases p)
    have sc: "scan errMsgRegex a = Some (a0, b0, c)" using Some p by simp
    have "length b0 < length a" using scan_errMsgRegex_shorter[OF sc] by simp
    with 1 have ih: "allMatches (b0 @ x # b) = allMatches b0 @ allMatches b" by blast
    have "allMatches a = c # allMatches b0"
      using sc by (subst allMatches.simps) simp
    moreover have "allMatches (a @ x # b) = c # allMatches (b0 @ x # b)"
      using scan_local_Some[OF x sc, of b] by (subst allMatches.simps) simp
    ultimately show ?thesis using ih by simp
  qed
qed

text \<open>A text between line breaks contributes its own matches, whatever surrounds it.\<close>

lemma allMatches_lines:
  assumes "pre = [] \<or> last pre \<in> {LF, CR}" and "post = [] \<or> hd post \<in> {LF, CR}"
  shows "allMatches (pre @ line @ post) = allMatches pre @ allMatches line @ allMatches post"
proof -
  have r: "allMatches (line @ post) = allMatches line @ allMatches post"
  proof (cases post)
    case Nil
    then show ?thesis by simp
  next
    case (Cons x q)
    with assms(2) have x: "x = LF \<or> x = CR" by auto
    have "allMatches post = allMatches q"
      using allMatches_append_break[OF x, of "[]" q] Cons by simp
    then show ?thesis using allMatches_append_break[OF x, of line q] Cons by simp
  qed
  show ?thesis
  proof (cases "pre = []")
    case True
    then show ?thesis using r by simp
  next
    case False
    then obtain p x where px: "pre = p @ [x]" by (metis rev_exhaust)
    with assms(1) have x: "x = LF \<or> x = CR" by auto
    have "allMatches pre = allMatches p"
      using allMatches_append_break[OF x, of p "[]"] px by simp
    then show ?thesis using allMatches_append_break[OF x, of p "line @ post"] px r by simp
  qed
qed

lemma allMatches_line:
  assumes "LF \<notin> set line" "CR \<notin> set line" and "regex_exec errMsgRegex line 0 = Some m"
  shows "allMatches line = [groups m]" and "index m = 0" and "endIndex m = length line"
proof -
  from assms(3) obtain a b c where sc: "scan errMsgRegex line = Some (a, b, c)"
    and m: "m = \<lparr>index = length line - length a, endIndex = length line - length b, groups = c\<rparr>"
    by (auto simp: regex_exec_def split: if_splits option.splits)
  from scan_errMsgRegex_line[OF assms(1,2) sc] have ab: "a = line" "b = []" by auto
  show "allMatches line = [groups m]"
    using sc ab m by (subst allMatches.simps) simp
  show "index m = 0" "endIndex m = length line" using ab m by auto
qed

lemma regex_exec_None_from:
  assumes "regex_exec errMsgRegex out 0 = None"
  shows "allMatches (drop i out) = []"
proof -
  from assms have "scan errMsgRegex out = None"
    by (auto simp: regex_exec_def split: option.splits)
  then have "\<forall>a. suffix a out \<longrightarrow> rmatch errMsgRegex (a, Map.empty) = []"
    by (simp only: scan_None_iff)
  then have "\<forall>a. suffix a (drop i out) \<longrightarrow> rmatch errMsgRegex (a, Map.empty) = []"
    by (meson suffix_drop suffix_order.trans)
  then have "scan errMsgRegex (drop i out) = None"
    by (simp only: scan_None_iff)
  then show ?thesis by (subst allMatches.simps) simp
qed

lemma diagCol_execIntellisense: "diagCol (execIntellisense sy doc st) = Map.empty"
  by (auto simp: execIntellisense_def spawn_def kill_def stdin_write_def stdin_end_def Let_def
      split: option.splits)

lemma mkDiag_ok:
  assumes "getUri sy doc (grp g 1) = Inr u"
    and "digits (grp g 2)" and "1 \<le> decimal (grp g 2)" and "decimal (grp g 2) \<le> 2 ^ 53"
    and "digits (grp g 3)" and "1 \<le> decimal (grp g 3)" and "decimal (grp g 3) \<le> 2 ^ 53"
  shows "mkDiag sy doc g =
     Inr \<lparr>di_uri = u,
          di_range = \<lparr>startLine = Fin (decimal (grp g 2) - 1), startCol = Fin 0,
                      endLine = Fin (decimal (grp g 2) - 1), endCol = Fin (decimal (grp g 3) - 1)\<rparr>,
          di_severity = getDiagSeverity (grp g 4), errMsg = grp g 5\<rparr>"
proof -
  have l: "minusOne (parseInt (grp g 2)) = Fin (decimal (grp g 2) - 1)"
    using assms(2,3,4) by (simp only: parseInt_digits minusOne_exact)
  have c: "minusOne (parseInt (grp g 3)) = Fin (decimal (grp g 3) - 1)"
    using assms(5,6,7) by (simp only: parseInt_digits minusOne_exact)
  show ?thesis
    using assms(1,3,6) unfolding mkDiag_def l c by (auto simp: new_Range_def Let_def)
qed

lemma digits_no_break:
  assumes "digits w"
  shows "LF \<notin> set w \<and> CR \<notin> set w"
proof -
  have "\<not> isDigit LF" "\<not> isDigit CR"
    by (simp_all add: isDigit_def LF_def CR_def)
  then show ?thesis using assms unfolding digits_def by blast
qed

lemma literal_no_break:
  "LF \<notin> set '':''" "CR \<notin> set '':''" "LF \<notin> set '': ''" "CR \<notin> set '': ''"
  "LF \<notin> set ''error''" "CR \<notin> set ''error''" "LF \<notin> set ''warning''" "CR \<notin> set ''warning''"
  by (simp_all add: LF_def CR_def)

lemma lineText_no_break: "lineText w \<Longrightarrow> LF \<notin> set w \<and> CR \<notin> set w"
  unfolding lineText_def by blast

section \<open>Facts about the timers\<close>

lemma timers_triggerIntellisense:
  assumes "pendingOk st"
  shows "timers (triggerIntellisense d st) = [(nextTimer st, now st + 500, d)]"
    and "timeout (triggerIntellisense d st) = Some (nextTimer st)"
    and "processes (triggerIntellisense d st) = processes st"
    and "now (triggerIntellisense d st) = now st"
  using assms
  by (auto simp: pendingOk_def triggerIntellisense_def clearTimeout_def Let_def split: option.splits)

lemma execIntellisense_frame:
  "timers (execIntellisense sy d st) = timers st"
  "timeout (execIntellisense sy d st) = timeout st"
  "now (execIntellisense sy d st) = now st"
  by (auto simp: execIntellisense_def spawn_def kill_def stdin_write_def stdin_end_def Let_def
      split: option.splits)

lemma map_update_same: "(map f xs)[a := f (xs ! a)] = map f xs"
  by (cases "a < length xs") (simp_all add: list_update_same_conv list_update_beyond)

lemma docs_execIntellisense:
  "map p_doc (processes (execIntellisense sy d st)) = map p_doc (processes st) @ [d]"
  by (cases "intellisenseProcess st")
    (simp_all add: processes_execIntellisense map_update map_update_same)

lemma elapse_early:
  assumes "timers st = [(t, due, d)]" and "now st + g < due"
  shows "elapse sy g st = st\<lparr>now := now st + g\<rparr>"
  using assms by (simp add: elapse_def fireTimers_def)

lemma elapse_due:
  assumes "timers st = [(t, due, d)]" and "due \<le> now st + g"
  shows "elapse sy g st = execIntellisense sy d (st\<lparr>now := now st + g, timers := []\<rparr>)"
  using assms by (simp add: elapse_def fireTimers_def)

lemma pendingOk_triggerIntellisense: "pendingOk st \<Longrightarrow> pendingOk (triggerIntellisense d st)"
  by (simp add: pendingOk_def[of "triggerIntellisense d st"] timers_triggerIntellisense)

lemma pendingOk_execIntellisense: "pendingOk st \<Longrightarrow> pendingOk (execIntellisense sy d st)"
  by (simp add: pendingOk_def execIntellisense_frame)

lemma pendingOk_elapse:
  assumes "pendingOk st"
  shows "pendingOk (elapse sy g st)"
proof (cases "timers st")
  case Nil
  then have "elapse sy g st = st\<lparr>now := now st + g\<rparr>" by (simp add: elapse_def fireTimers_def)
  then show ?thesis using assms by (simp add: pendingOk_def)
next
  case (Cons a list)
  with assms obtain t due d where td: "timers st = [(t, due, d)]" "timeout st = Some t"
    by (auto simp: pendingOk_def)
  show ?thesis
  proof (cases "due \<le> now st + g")
    case True
    show ?thesis unfolding elapse_due[OF td(1) True]
      by (rule pendingOk_execIntellisense) (simp add: pendingOk_def)
  next
    case False
    then have "now st + g < due" by simp
    from elapse_early[OF td(1) this] show ?thesis using td by (simp add: pendingOk_def)
  qed
qed

lemma burst_runs_last:
  assumes "pendingOk st" and "ds \<noteq> []"
    and "\<forall>(d, g)\<in>set (butlast ds). g < 500" and "500 \<le> snd (last ds)"
  shows "map p_doc (processes (burst sy ds st)) = map p_doc (processes st) @ [fst (last ds)] \<and>
    timers (burst sy ds st) = []"
  using assms
proof (induction ds arbitrary: st)
  case Nil
  then show ?case by simp
next
  case (Cons a ds)
  obtain d g where a: "a = (d, g)" by (cases a)
  let ?s1 = "triggerIntellisense d st"
  note tr = timers_triggerIntellisense[OF Cons.prems(1), of d]
  show ?case
  proof (cases "ds = []")
    case True
    with Cons.prems(4) a have g: "500 \<le> g" by simp
    have "elapse sy g ?s1 = execIntellisense sy d (?s1\<lparr>now := now ?s1 + g, timers := []\<rparr>)"
      by (rule elapse_due[OF tr(1)]) (use g tr(4) in simp)
    then show ?thesis using True a tr(3)
      by (simp add: docs_execIntellisense execIntellisense_frame)
  next
    case False
    with Cons.prems(3) a have g: "g < 500" by simp
    have e: "elapse sy g ?s1 = ?s1\<lparr>now := now ?s1 + g\<rparr>"
      by (rule elapse_early[OF tr(1)]) (use g tr(4) in simp)
    have ok: "pendingOk (elapse sy g ?s1)"
      by (intro pendingOk_elapse pendingOk_triggerIntellisense Cons.prems(1))
    have "map p_doc (processes (burst sy ds (elapse sy g ?s1))) =
        map p_doc (processes (elapse sy g ?s1)) @ [fst (last ds)] \<and>
        timers (burst sy ds (elapse sy g ?s1)) = []"
      using Cons.IH[OF ok False] Cons.prems(3,4) False by simp
    then show ?thesis using a False e tr(3) by simp
  qed
qed

lemma loopBody_frame:
  "timers (loopBody sy out doc c st) = timers st"
  "timeout (loopBody sy out doc c st) = timeout st"
  by (auto simp: loopBody_def outputToChannel_def logger_def
      split: sum.splits js_error.splits option.splits prod.splits)

lemma processIntellisenseErrors_frame:
  "timers (processIntellisenseErrors sy out doc st) = timers st"
  "timeout (processIntellisenseErrors sy out doc st) = timeout st"
proof -
  have "timers (foldl (\<lambda>s c. loopBody sy out doc c s) s ms) = timers s \<and>
      timeout (foldl (\<lambda>s c. loopBody sy out doc c s) s ms) = timeout s" for ms s
    by (induction ms arbitrary: s) (simp_all add: loopBody_frame)
  then show "timers (processIntellisenseErrors sy out doc st) = timers st"
    and "timeout (processIntellisenseErrors sy out doc st) = timeout st"
    by (simp_all add: processIntellisenseErrors_def processLoop_fold)
qed

lemma pendingOk_step:
  assumes "pendingOk st"
  shows "pendingOk (step sy st ev)"
proof (cases ev)
  case (ChangeActiveTextEditor editor)
  then show ?thesis using assms
    by (auto simp: onDidChangeActiveTextEditor_def pendingOk_triggerIntellisense split: option.splits)
next
  case (ChangeTextDocument doc)
  then show ?thesis using assms
    by (auto simp: onDidChangeTextDocument_def pendingOk_triggerIntellisense)
next
  case (CloseTextDocument doc)
  then show ?thesis using assms by (simp add: onDidCloseTextDocument_def pendingOk_def)
next
  case (Elapse d)
  then show ?thesis using assms by (simp add: pendingOk_elapse)
next
  case (StdoutData h data)
  then show ?thesis using assms by (simp add: stdoutData_def logger_def pendingOk_def)
next
  case (StderrData h data)
  then show ?thesis using assms
    by (simp add: stderrData_def pendingOk_def processIntellisenseErrors_frame)
next
  case (Close h code)
  then show ?thesis using assms by (simp add: closeEvent_def logger_def pendingOk_def)
qed

lemma pendingOk_run: "pendingOk (run sy ed evs)"
proof -
  have i: "pendingOk (subscribeIntellisense sy ed init)"
    by (auto simp: subscribeIntellisense_def Let_def initIntellisense_def init_def
        intro!: pendingOk_triggerIntellisense split: option.splits)
      (simp_all add: pendingOk_def)
  have "pendingOk s \<Longrightarrow> pendingOk (foldl (step sy) s evs)" for s
    by (induction evs arbitrary: s) (simp_all add: pendingOk_step)
  then show ?thesis using i by (simp add: run_def)
qed

lemma pendingOk_burst: "pendingOk st \<Longrightarrow> pendingOk (burst sy ds st)"
  by (induction ds arbitrary: st) (auto simp: pendingOk_elapse pendingOk_triggerIntellisense)

lemma pendingOk_length: "pendingOk st \<Longrightarrow> length (timers st) \<le> 1"
  by (auto simp: pendingOk_def)

section \<open>Evaluations on the sample environment\<close>

lemma decimal_12: "decimal ''12'' = 12" and decimal_5: "decimal ''5'' = 5"
  by (simp_all add: decimal_def digitVal_def)

lemma regex_exec_sample:
  "regex_exec errMsgRegex ''/abs/path.ly:12:5: error: bad note'' 0 =
     Some \<lparr>index = 0, endIndex = 34,
            groups = [1 \<mapsto> ''/abs/path.ly'', 2 \<mapsto> ''12'', 3 \<mapsto> ''5'', 4 \<mapsto> ''error'',
                      5 \<mapsto> ''bad note'']\<rparr>"
  by (simp add: regex_exec_def errMsgRegex_def LF_def CR_def isDigit_def)

lemma regex_exec_sample_stdin:
  "regex_exec errMsgRegex ''-:12:5: error: bad note'' 0 =
     Some \<lparr>index = 0, endIndex = 23,
            groups = [1 \<mapsto> ''-'', 2 \<mapsto> ''12'', 3 \<mapsto> ''5'', 4 \<mapsto> ''error'',
                      5 \<mapsto> ''bad note'']\<rparr>"
  by (simp add: regex_exec_def errMsgRegex_def LF_def CR_def isDigit_def)

section \<open>The location resolver\<close>

text \<open>
  C2. \<^verbatim>\<open>getUri\<close> resolves a raw path in this order: the path \<^verbatim>\<open>-\<close> is the current
  document, whatever the file system holds; otherwise an absolute path that exists is
  the file of that path; otherwise, if the path joined to the directory of the document
  exists, it is the file of the joined path; otherwise the call fails, and the error
  names the raw path.
\<close>

theorem getUri_precedence:
  "(gotPath = ''-'' \<longrightarrow> getUri sy doc gotPath = Inr (uri doc)) \<and>
   (gotPath \<noteq> ''-'' \<and> path_isAbsolute sy gotPath \<and> fs_existsSync sy gotPath \<longrightarrow>
      getUri sy doc gotPath = Inr (Uri_file gotPath)) \<and>
   (gotPath \<noteq> ''-'' \<and> \<not> (path_isAbsolute sy gotPath \<and> fs_existsSync sy gotPath) \<and>
    fs_existsSync sy (path_join sy (path_dirname sy (fsPath (uri doc))) gotPath) \<longrightarrow>
      getUri sy doc gotPath =
        Inr (Uri_file (path_join sy (path_dirname sy (fsPath (uri doc))) gotPath))) \<and>
   (gotPath \<noteq> ''-'' \<and> \<not> (path_isAbsolute sy gotPath \<and> fs_existsSync sy gotPath) \<and>
    \<not> fs_existsSync sy (path_join sy (path_dirname sy (fsPath (uri doc))) gotPath) \<longrightarrow>
      getUri sy doc gotPath = Inl (JsError (''Error in '' @ [BQ] @ gotPath @ [BQ])))"
  by (simp add: getUri_def)

theorem getUri_precedence_witness:
  "getUri demo_sys demo_doc ''-'' = Inr (Uri ''file'' ''/home/u/score.ly'') \<and>
   getUri demo_sys demo_doc ''/abs/path.ly'' = Inr (Uri ''file'' ''/abs/path.ly'') \<and>
   getUri demo_sys demo_doc ''inc.ly'' = Inr (Uri ''file'' ''/home/u/inc.ly'') \<and>
   getUri demo_sys demo_doc ''/abs/none.ly'' =
     Inl (JsError (''Error in '' @ [BQ] @ ''/abs/none.ly'' @ [BQ]))"
  using getUri_precedence [of "''-''" demo_sys demo_doc]
    getUri_precedence [of "''/abs/path.ly''" demo_sys demo_doc]
    getUri_precedence [of "''inc.ly''" demo_sys demo_doc]
    getUri_precedence [of "''/abs/none.ly''" demo_sys demo_doc]
  by (simp add: demo_sys_def demo_doc_def Uri_file_def)

section \<open>Closing a document\<close>

text \<open>
  C9. When a document is closed, the entry of its URI is deleted from the diagnostic
  collection and the entry of every other URI stays as it was.
\<close>

theorem close_document_deletes_only_its_entry:
  "diagCol (step sy st (CloseTextDocument doc)) (uri doc) = None \<and>
   (\<forall>u. u \<noteq> uri doc \<longrightarrow> diagCol (step sy st (CloseTextDocument doc)) u = diagCol st u)"
  by (simp add: onDidCloseTextDocument_def)

theorem close_document_deletes_only_its_entry_witness:
  "diagCol demo_state (uri demo_doc) = Some [demo_diag] \<and>
   diagCol (step demo_sys demo_state (CloseTextDocument demo_doc)) (uri demo_doc) = None \<and>
   diagCol (step demo_sys demo_state (CloseTextDocument demo_doc)) (Uri_file ''/home/u/inc.ly'') =
     Some [demo_diag, demo_diag]"
  using close_document_deletes_only_its_entry [of demo_sys demo_state demo_doc]
  by (simp add: demo_state_def demo_doc_def Uri_file_def)

section \<open>The compiler's arguments\<close>

text \<open>
  C7. \<^verbatim>\<open>execIntellisense\<close> spawns one process, keeps its handle, and passes it the
  configured argument string, trimmed and split at runs of white space, followed by
  the three fixed flags \<^verbatim>\<open>--loglevel=WARNING\<close>, \<^verbatim>\<open>--define-default=backend=null\<close> and
  \<^verbatim>\<open>-\<close>, in this order, whatever the configured string is.
\<close>

theorem spawn_arguments:
  "length (processes (execIntellisense sy doc st)) = Suc (length (processes st)) \<and>
   intellisenseProcess (execIntellisense sy doc st) = Some (length (processes st)) \<and>
   p_args (last (processes (execIntellisense sy doc st))) =
     split_ws (trim (additionalCommandLineArguments sy doc)) @
       [''--loglevel=WARNING'', ''--define-default=backend=null'', ''-'']"
  by (simp add: processes_execIntellisense intellisenseProcess_execIntellisense intellisenseArgs_def
      split: option.splits)

theorem spawn_arguments_witness:
  "additionalCommandLineArguments demo_sys demo_doc = '' -dno-point-and-click   --pdf '' \<and>
   p_args (last (processes (execIntellisense demo_sys demo_doc demo_state))) =
     [''-dno-point-and-click'', ''--pdf'',
      ''--loglevel=WARNING'', ''--define-default=backend=null'', ''-'']"
  using spawn_arguments [of demo_sys demo_doc demo_state]
  by (simp add: demo_sys_def split_ws_def trim_def isWhiteSpace_def)

text \<open>
  C10. When the configured argument string is empty or holds only white space, its
  trimmed split is the list of one empty string, not the empty list, so the compiler's
  argument vector starts with an empty argument before the three fixed flags.
\<close>

theorem blank_arguments_give_empty_argument:
  assumes "\<forall>x\<in>set (additionalCommandLineArguments sy doc). isWhiteSpace x"
  shows "split_ws (trim (additionalCommandLineArguments sy doc)) = [''''] \<and>
    p_args (last (processes (execIntellisense sy doc st))) =
      ['''', ''--loglevel=WARNING'', ''--define-default=backend=null'', ''-'']"
  using assms
  by (simp add: processes_execIntellisense intellisenseArgs_def trim_blank split_ws_def)

theorem blank_arguments_give_empty_argument_witness:
  "p_args (last (processes
      (execIntellisense (demo_sys\<lparr>additionalCommandLineArguments := \<lambda>d. ''''\<rparr>) demo_doc init))) =
     ['''', ''--loglevel=WARNING'', ''--define-default=backend=null'', ''-''] \<and>
   p_args (last (processes
      (execIntellisense (demo_sys\<lparr>additionalCommandLineArguments := \<lambda>d. ''   ''\<rparr>) demo_doc init))) =
     ['''', ''--loglevel=WARNING'', ''--define-default=backend=null'', ''-'']"
  using blank_arguments_give_empty_argument
      [of "demo_sys\<lparr>additionalCommandLineArguments := \<lambda>d. ''''\<rparr>" demo_doc init]
    blank_arguments_give_empty_argument
      [of "demo_sys\<lparr>additionalCommandLineArguments := \<lambda>d. ''   ''\<rparr>" demo_doc init]
  by (simp add: isWhiteSpace_def)

section \<open>Severity keywords\<close>

text \<open>
  C4 does not hold of every line: the pattern admits the keywords \<^verbatim>\<open>error\<close> and
  \<^verbatim>\<open>warning\<close> only, so a line with any other keyword does not match; \<^verbatim>\<open>exec\<close>
  returns \<^verbatim>\<open>null\<close> on it and no record is made.
\<close>

theorem unknown_keyword_line_is_dropped:
  "regex_exec errMsgRegex ''/abs/path.ly:12:5: fatal: bad note'' 0 = None \<and>
   processIntellisenseErrors demo_sys ''/abs/path.ly:12:5: fatal: bad note'' demo_doc demo_state =
     demo_state"
proof -
  have n: "regex_exec errMsgRegex ''/abs/path.ly:12:5: fatal: bad note'' 0 = None"
    by code_simp
  have l: "lastIndex demo_state = 0" by (simp add: demo_state_def init_def)
  show ?thesis
    using n l by (simp add: processIntellisenseErrors_def processLoop_None)
qed

text \<open>
  C4, amended. \<^verbatim>\<open>getDiagSeverity\<close> gives \<^verbatim>\<open>Error\<close> for every keyword but
  \<^verbatim>\<open>warning\<close>; the keyword of every match is \<^verbatim>\<open>error\<close> or \<^verbatim>\<open>warning\<close>; and a
  chunk that holds neither \<^verbatim>\<open>: error: \<close> nor \<^verbatim>\<open>: warning: \<close> leaves the state as
  it was, so a line with another keyword is dropped.
\<close>

theorem keyword_is_error_or_warning:
  "(s \<noteq> ''warning'' \<longrightarrow> getDiagSeverity s = Error) \<and>
   (regex_exec errMsgRegex out i = Some m \<longrightarrow>
      grp (groups m) 4 = ''error'' \<or> grp (groups m) 4 = ''warning'') \<and>
   (\<not> sublist '': error: '' out \<and> \<not> sublist '': warning: '' out \<and> lastIndex st = 0 \<longrightarrow>
      processIntellisenseErrors sy out doc st = st)"
proof (intro conjI impI)
  assume "s \<noteq> ''warning''"
  then show "getDiagSeverity s = Error" by (simp add: getDiagSeverity_def)
next
  assume "regex_exec errMsgRegex out i = Some m"
  from regex_exec_errMsgRegexD[OF this]
  show "grp (groups m) 4 = ''error'' \<or> grp (groups m) 4 = ''warning''"
    by (auto simp: grp_def)
next
  assume a: "\<not> sublist '': error: '' out \<and> \<not> sublist '': warning: '' out \<and> lastIndex st = 0"
  then have "regex_exec errMsgRegex out (lastIndex st) = None"
    using regex_exec_errMsgRegex_marker[of out "lastIndex st"] by (cases "regex_exec errMsgRegex out (lastIndex st)") auto
  then show "processIntellisenseErrors sy out doc st = st"
    using a by (simp add: processIntellisenseErrors_def processLoop_None)
qed

theorem keyword_is_error_or_warning_witness:
  "getDiagSeverity ''fatal'' = Error \<and>
   regex_exec errMsgRegex ''-:2:3: warning: w'' 0 =
     Some \<lparr>index = 0, endIndex = 17,
            groups = [1 \<mapsto> ''-'', 2 \<mapsto> ''2'', 3 \<mapsto> ''3'', 4 \<mapsto> ''warning'', 5 \<mapsto> ''w'']\<rparr> \<and>
   grp [1 \<mapsto> ''-'', 2 \<mapsto> ''2'', 3 \<mapsto> ''3'', 4 \<mapsto> ''warning'', 5 \<mapsto> ''w''] 4 = ''warning'' \<and>
   processIntellisenseErrors demo_sys ''-:2:3: fatal: w'' demo_doc demo_state = demo_state"
proof -
  have e: "regex_exec errMsgRegex ''-:2:3: warning: w'' 0 =
     Some \<lparr>index = 0, endIndex = 17,
            groups = [1 \<mapsto> ''-'', 2 \<mapsto> ''2'', 3 \<mapsto> ''3'', 4 \<mapsto> ''warning'', 5 \<mapsto> ''w'']\<rparr>"
    by (simp add: regex_exec_def errMsgRegex_def LF_def CR_def isDigit_def)
  have s: "\<not> sublist '': error: '' ''-:2:3: fatal: w'' \<and> \<not> sublist '': warning: '' ''-:2:3: fatal: w''"
    by (simp add: sublist_Cons_right prefix_Cons)
  have l: "lastIndex demo_state = 0" by (simp add: demo_state_def init_def)
  show ?thesis
    using e s l
      keyword_is_error_or_warning [where s = "''fatal''" and i = 0 and st = demo_state
        and sy = demo_sys and doc = demo_doc and out = "''-:2:3: fatal: w''"]
      keyword_is_error_or_warning [where s = "''fatal''" and i = 0 and st = demo_state
        and sy = demo_sys and doc = demo_doc and out = "''-:2:3: warning: w''" and m =
         "\<lparr>index = 0, endIndex = 17,
            groups = [1 \<mapsto> ''-'', 2 \<mapsto> ''2'', 3 \<mapsto> ''3'', 4 \<mapsto> ''warning'', 5 \<mapsto> ''w'']\<rparr>"]
    by (simp add: grp_def)
qed

section \<open>One process at a time\<close>

text \<open>
  C5. The \<^verbatim>\<open>close\<close> handler of every process clears \<^verbatim>\<open>intellisenseProcess\<close>, also
  when the variable holds the handle of a later process. After the trace below the
  second and the third process both run and neither was killed: the third run found
  no handle to kill.
\<close>

theorem stale_close_leaves_two_live_processes:
  "liveProcesses (run demo_sys None stale_close_trace) = [1, 2] \<and>
   intellisenseProcess (run demo_sys None stale_close_trace) = Some 2"
  by code_simp

section \<open>The records of a chunk\<close>

text \<open>
  C1. Take a line of a chunk of error output (the text between two line breaks, or
  between a line break and an end of the chunk) on which the pattern matches, with the
  captures \<open>p\<close>, \<open>l\<close>, \<open>c\<close>, \<open>k\<close> and \<open>msg\<close>; let \<open>p\<close> resolve to \<open>u\<close>, and let
  the 1-based numbers that \<open>l\<close> and \<open>c\<close> write be at least 1 and at most \<open>2^53\<close>, the
  range in which the Numbers of the host language are exact. Then the match is the whole
  line \<open>p:l:c: k: msg\<close>, so the message is the rest of the line, and \<open>k\<close> is \<^verbatim>\<open>error\<close>
  or \<^verbatim>\<open>warning\<close>. The record \<open>d\<close> of the line has its range on line \<open>l - 1\<close> from
  column 0 to column \<open>c - 1\<close>, the severity \<^verbatim>\<open>Error\<close> for \<^verbatim>\<open>error\<close> and \<^verbatim>\<open>Warning\<close> for
  \<^verbatim>\<open>warning\<close>, and the message \<open>msg\<close>. Processing the line alone puts \<open>d\<close> behind the
  diagnostics that the collection holds for \<open>u\<close> and leaves the other entries as they
  are; processing a chunk puts \<open>d\<close> there between the records of the lines before and
  the records of the lines after. For the line \<^verbatim>\<open>/abs/path.ly:12:5: error: bad note\<close>
  this is line 11, column 4, \<^verbatim>\<open>Error\<close>, \<^verbatim>\<open>bad note\<close>.
\<close>

theorem matching_line_gives_record:
  assumes "lastIndex st = 0"
    and "pre = [] \<or> last pre \<in> {LF, CR}" and "post = [] \<or> hd post \<in> {LF, CR}"
    and "LF \<notin> set line" and "CR \<notin> set line"
    and "regex_exec errMsgRegex line 0 = Some m"
    and "groups m = [1 \<mapsto> p, 2 \<mapsto> l, 3 \<mapsto> c, 4 \<mapsto> k, 5 \<mapsto> msg]"
    and "getUri sy doc p = Inr u"
    and "1 \<le> decimal l" and "decimal l \<le> 2 ^ 53"
    and "1 \<le> decimal c" and "decimal c \<le> 2 ^ 53"
  shows "line = p @ '':'' @ l @ '':'' @ c @ '': '' @ k @ '': '' @ msg \<and>
    index m = 0 \<and> endIndex m = length line \<and>
    (k = ''error'' \<or> k = ''warning'') \<and>
    (let d = \<lparr>severity = (if k = ''error'' then Error else Warning),
              range' = \<lparr>startLine = Fin (decimal l - 1), startCol = Fin 0,
                         endLine = Fin (decimal l - 1), endCol = Fin (decimal c - 1)\<rparr>,
              message = msg\<rparr>;
         add = (\<lambda>col. col(u \<mapsto> (case col u of None \<Rightarrow> [] | Some ds \<Rightarrow> ds) @ [d]));
         st1 = processIntellisenseErrors sy pre doc st
     in diagCol (processIntellisenseErrors sy line doc st) = add (diagCol st) \<and>
        diagCol (processIntellisenseErrors sy (pre @ line @ post) doc st) =
          diagCol (processIntellisenseErrors sy post doc (st1\<lparr>diagCol := add (diagCol st1)\<rparr>)))"
proof -
  note am = allMatches_line[OF assms(4,5,6)]
  from regex_exec_errMsgRegexD[OF assms(6)] obtain g1 g2 g3 k' g5 where d:
    "drop (index m) line =
        g1 @ '':'' @ g2 @ '':'' @ g3 @ '': '' @ k' @ '': '' @ g5 @ drop (endIndex m) line"
    "digits g2" "digits g3"
    "k' = ''error'' \<or> k' = ''warning''"
    "groups m = [1 \<mapsto> g1, 2 \<mapsto> g2, 3 \<mapsto> g3, 4 \<mapsto> k', 5 \<mapsto> g5]"
    by blast
  have g: "grp (groups m) 1 = p" "grp (groups m) 2 = l" "grp (groups m) 3 = c"
    "grp (groups m) 4 = k" "grp (groups m) 5 = msg"
    using assms(7) by (simp_all add: grp_def)
  have g': "grp (groups m) 1 = g1" "grp (groups m) 2 = g2" "grp (groups m) 3 = g3"
    "grp (groups m) 4 = k'" "grp (groups m) 5 = g5"
    using d(5) by (simp_all add: grp_def)
  have eqs: "g1 = p" "g2 = l" "g3 = c" "k' = k" "g5 = msg"
    using g g' by simp_all
  have shape: "line = p @ '':'' @ l @ '':'' @ c @ '': '' @ k @ '': '' @ msg"
    using d(1) am(2,3) eqs by simp
  have kk: "k = ''error'' \<or> k = ''warning''" using d(4) eqs by simp
  have dg: "digits l" "digits c" using d(2,3) eqs by simp_all
  have sev: "getDiagSeverity k = (if k = ''error'' then Error else Warning)"
    using kk by (auto simp: getDiagSeverity_def)
  have mk: "mkDiag sy doc (groups m) =
     Inr \<lparr>di_uri = u,
          di_range = \<lparr>startLine = Fin (decimal l - 1), startCol = Fin 0,
                      endLine = Fin (decimal l - 1), endCol = Fin (decimal c - 1)\<rparr>,
          di_severity = (if k = ''error'' then Error else Warning), errMsg = msg\<rparr>"
    using mkDiag_ok[of sy doc "groups m" u] assms(8,9,10,11,12) dg g sev by simp
  have one: "diagCol (processIntellisenseErrors sy line doc st) =
      collect sy doc [groups m] (diagCol st)"
    using assms(1) am(1) by (simp add: diagCol_processIntellisenseErrors)
  have all: "diagCol (processIntellisenseErrors sy (pre @ line @ post) doc st) =
      collect sy doc (allMatches pre @ [groups m] @ allMatches post) (diagCol st)"
    using assms(1) allMatches_lines[OF assms(2,3), of line] am(1)
    by (simp add: diagCol_processIntellisenseErrors)
  have c1: "collect sy doc [groups m] col =
      col(u \<mapsto> (case col u of None \<Rightarrow> [] | Some ds \<Rightarrow> ds) @
        [\<lparr>severity = (if k = ''error'' then Error else Warning),
          range' = \<lparr>startLine = Fin (decimal l - 1), startCol = Fin 0,
                     endLine = Fin (decimal l - 1), endCol = Fin (decimal c - 1)\<rparr>,
          message = msg\<rparr>])" for col
    by (simp add: collect_def mk addToDiagCol_def Let_def)
  have pre0: "diagCol (processIntellisenseErrors sy pre doc st) =
      collect sy doc (allMatches pre) (diagCol st)"
    using assms(1) by (simp add: diagCol_processIntellisenseErrors)
  have post0: "diagCol (processIntellisenseErrors sy post doc (s\<lparr>diagCol := x\<rparr>)) =
      collect sy doc (allMatches post) x" if "lastIndex s = 0" for s x
    using that by (simp add: diagCol_processIntellisenseErrors)
  have l1: "lastIndex (processIntellisenseErrors sy pre doc st) = 0"
    by (rule lastIndex_processIntellisenseErrors)
  have two: "diagCol (processIntellisenseErrors sy (pre @ line @ post) doc st) =
      collect sy doc (allMatches post)
        (collect sy doc [groups m] (diagCol (processIntellisenseErrors sy pre doc st)))"
    unfolding all pre0 by (simp only: collect_append)
  show ?thesis
    unfolding Let_def post0[OF l1] using shape am(2,3) kk one two by (simp only: c1 simp_thms)
qed

theorem matching_line_gives_record_witness:
  "diagCol (processIntellisenseErrors demo_sys ''/abs/path.ly:12:5: error: bad note'' demo_doc
       demo_state) (Uri ''file'' ''/abs/path.ly'') =
     Some [\<lparr>severity = Error,
            range' = \<lparr>startLine = Fin 11, startCol = Fin 0, endLine = Fin 11, endCol = Fin 4\<rparr>,
            message = ''bad note''\<rparr>] \<and>
   diagCol (processIntellisenseErrors demo_sys ''-:12:5: error: bad note'' demo_doc demo_state)
       (Uri ''file'' ''/home/u/score.ly'') =
     Some [demo_diag,
           \<lparr>severity = Error,
            range' = \<lparr>startLine = Fin 11, startCol = Fin 0, endLine = Fin 11, endCol = Fin 4\<rparr>,
            message = ''bad note''\<rparr>] \<and>
   diagCol (processIntellisenseErrors demo_sys ''-:12:5: error: bad note'' demo_doc demo_state)
       (Uri ''file'' ''/home/u/inc.ly'') = Some [demo_diag, demo_diag] \<and>
   diagCol (processIntellisenseErrors demo_sys
       ((''-:1:1: error: a'' @ [LF]) @ ''-:12:5: error: bad note'' @ ([LF] @ ''-:2:3: warning: w''))
       demo_doc demo_state) (Uri ''file'' ''/home/u/score.ly'') =
     Some [demo_diag,
           \<lparr>severity = Error,
            range' = \<lparr>startLine = Fin 0, startCol = Fin 0, endLine = Fin 0, endCol = Fin 0\<rparr>,
            message = ''a''\<rparr>,
           \<lparr>severity = Error,
            range' = \<lparr>startLine = Fin 11, startCol = Fin 0, endLine = Fin 11, endCol = Fin 4\<rparr>,
            message = ''bad note''\<rparr>,
           \<lparr>severity = Warning,
            range' = \<lparr>startLine = Fin 1, startCol = Fin 0, endLine = Fin 1, endCol = Fin 2\<rparr>,
            message = ''w''\<rparr>]"
proof -
  have h1: "lastIndex demo_state = 0" by (simp add: demo_state_def init_def)
  have h2: "[] = [] \<or> last [] \<in> {LF, CR}" by simp
  have h3: "[] = [] \<or> hd [] \<in> {LF, CR}" by simp
  have j2: "''-:1:1: error: a'' @ [LF] = [] \<or> last (''-:1:1: error: a'' @ [LF]) \<in> {LF, CR}"
    by simp
  have j3: "[LF] @ ''-:2:3: warning: w'' = [] \<or> hd ([LF] @ ''-:2:3: warning: w'') \<in> {LF, CR}"
    by simp
  have h4: "LF \<notin> set ''/abs/path.ly:12:5: error: bad note''"
    and h5: "CR \<notin> set ''/abs/path.ly:12:5: error: bad note''"
    and i4: "LF \<notin> set ''-:12:5: error: bad note''"
    and i5: "CR \<notin> set ''-:12:5: error: bad note''"
    by (simp_all add: LF_def CR_def)
  have h7: "groups \<lparr>index = 0, endIndex = 34,
            groups = [1 \<mapsto> ''/abs/path.ly'', 2 \<mapsto> ''12'', 3 \<mapsto> ''5'', 4 \<mapsto> ''error'',
                      5 \<mapsto> ''bad note'']\<rparr> =
     [1 \<mapsto> ''/abs/path.ly'', 2 \<mapsto> ''12'', 3 \<mapsto> ''5'', 4 \<mapsto> ''error'', 5 \<mapsto> ''bad note'']"
    by simp
  have i7: "groups \<lparr>index = 0, endIndex = 23,
            groups = [1 \<mapsto> ''-'', 2 \<mapsto> ''12'', 3 \<mapsto> ''5'', 4 \<mapsto> ''error'',
                      5 \<mapsto> ''bad note'']\<rparr> =
     [1 \<mapsto> ''-'', 2 \<mapsto> ''12'', 3 \<mapsto> ''5'', 4 \<mapsto> ''error'', 5 \<mapsto> ''bad note'']"
    by simp
  have h8: "getUri demo_sys demo_doc ''/abs/path.ly'' = Inr (Uri ''file'' ''/abs/path.ly'')"
    by (simp add: getUri_def demo_sys_def Uri_file_def)
  have i8: "getUri demo_sys demo_doc ''-'' = Inr (Uri ''file'' ''/home/u/score.ly'')"
    by (simp add: getUri_def demo_doc_def Uri_file_def)
  have h9: "1 \<le> decimal ''12''" and h10: "decimal ''12'' \<le> 2 ^ 53"
    and h11: "1 \<le> decimal ''5''" and h12: "decimal ''5'' \<le> 2 ^ 53"
    by (simp_all add: decimal_12 decimal_5)
  have s: "diagCol demo_state (Uri ''file'' ''/abs/path.ly'') = None"
    "diagCol demo_state (Uri ''file'' ''/home/u/score.ly'') = Some [demo_diag]"
    "diagCol demo_state (Uri ''file'' ''/home/u/inc.ly'') = Some [demo_diag, demo_diag]"
    by (simp_all add: demo_state_def Uri_file_def)
  have e: "diagCol (processIntellisenseErrors demo_sys ([LF] @ ''-:2:3: warning: w'') demo_doc
      ((processIntellisenseErrors demo_sys (''-:1:1: error: a'' @ [LF]) demo_doc demo_state)
        \<lparr>diagCol :=
           (diagCol (processIntellisenseErrors demo_sys (''-:1:1: error: a'' @ [LF]) demo_doc
              demo_state))
           (Uri ''file'' ''/home/u/score.ly'' \<mapsto>
             (case diagCol (processIntellisenseErrors demo_sys (''-:1:1: error: a'' @ [LF])
                     demo_doc demo_state) (Uri ''file'' ''/home/u/score.ly'') of
                None \<Rightarrow> [] | Some ds \<Rightarrow> ds) @
             [\<lparr>severity = (if ''error'' = ''error'' then Error else Warning),
               range' = \<lparr>startLine = Fin (decimal ''12'' - 1), startCol = Fin 0,
                          endLine = Fin (decimal ''12'' - 1), endCol = Fin (decimal ''5'' - 1)\<rparr>,
               message = ''bad note''\<rparr>])\<rparr>))
      (Uri ''file'' ''/home/u/score.ly'') =
     Some [demo_diag,
           \<lparr>severity = Error,
            range' = \<lparr>startLine = Fin 0, startCol = Fin 0, endLine = Fin 0, endCol = Fin 0\<rparr>,
            message = ''a''\<rparr>,
           \<lparr>severity = Error,
            range' = \<lparr>startLine = Fin 11, startCol = Fin 0, endLine = Fin 11, endCol = Fin 4\<rparr>,
            message = ''bad note''\<rparr>,
           \<lparr>severity = Warning,
            range' = \<lparr>startLine = Fin 1, startCol = Fin 0, endLine = Fin 1, endCol = Fin 2\<rparr>,
            message = ''w''\<rparr>]"
    by code_simp
  have eq: "diagCol (processIntellisenseErrors demo_sys
       ((''-:1:1: error: a'' @ [LF]) @ ''-:12:5: error: bad note'' @ ([LF] @ ''-:2:3: warning: w''))
       demo_doc demo_state) =
     diagCol (processIntellisenseErrors demo_sys ([LF] @ ''-:2:3: warning: w'') demo_doc
      ((processIntellisenseErrors demo_sys (''-:1:1: error: a'' @ [LF]) demo_doc demo_state)
        \<lparr>diagCol :=
           (diagCol (processIntellisenseErrors demo_sys (''-:1:1: error: a'' @ [LF]) demo_doc
              demo_state))
           (Uri ''file'' ''/home/u/score.ly'' \<mapsto>
             (case diagCol (processIntellisenseErrors demo_sys (''-:1:1: error: a'' @ [LF])
                     demo_doc demo_state) (Uri ''file'' ''/home/u/score.ly'') of
                None \<Rightarrow> [] | Some ds \<Rightarrow> ds) @
             [\<lparr>severity = (if ''error'' = ''error'' then Error else Warning),
               range' = \<lparr>startLine = Fin (decimal ''12'' - 1), startCol = Fin 0,
                          endLine = Fin (decimal ''12'' - 1), endCol = Fin (decimal ''5'' - 1)\<rparr>,
               message = ''bad note''\<rparr>])\<rparr>))"
    using matching_line_gives_record
        [OF h1 j2 j3 i4 i5 regex_exec_sample_stdin i7 i8 h9 h10 h11 h12]
    unfolding Let_def by (elim conjE) assumption
  have c4: "diagCol (processIntellisenseErrors demo_sys
       ((''-:1:1: error: a'' @ [LF]) @ ''-:12:5: error: bad note'' @ ([LF] @ ''-:2:3: warning: w''))
       demo_doc demo_state) (Uri ''file'' ''/home/u/score.ly'') =
     Some [demo_diag,
           \<lparr>severity = Error,
            range' = \<lparr>startLine = Fin 0, startCol = Fin 0, endLine = Fin 0, endCol = Fin 0\<rparr>,
            message = ''a''\<rparr>,
           \<lparr>severity = Error,
            range' = \<lparr>startLine = Fin 11, startCol = Fin 0, endLine = Fin 11, endCol = Fin 4\<rparr>,
            message = ''bad note''\<rparr>,
           \<lparr>severity = Warning,
            range' = \<lparr>startLine = Fin 1, startCol = Fin 0, endLine = Fin 1, endCol = Fin 2\<rparr>,
            message = ''w''\<rparr>]"
    by (simp only: eq e)
  have c123: "diagCol (processIntellisenseErrors demo_sys ''/abs/path.ly:12:5: error: bad note'' demo_doc
       demo_state) (Uri ''file'' ''/abs/path.ly'') =
     Some [\<lparr>severity = Error,
            range' = \<lparr>startLine = Fin 11, startCol = Fin 0, endLine = Fin 11, endCol = Fin 4\<rparr>,
            message = ''bad note''\<rparr>] \<and>
   diagCol (processIntellisenseErrors demo_sys ''-:12:5: error: bad note'' demo_doc demo_state)
       (Uri ''file'' ''/home/u/score.ly'') =
     Some [demo_diag,
           \<lparr>severity = Error,
            range' = \<lparr>startLine = Fin 11, startCol = Fin 0, endLine = Fin 11, endCol = Fin 4\<rparr>,
            message = ''bad note''\<rparr>] \<and>
   diagCol (processIntellisenseErrors demo_sys ''-:12:5: error: bad note'' demo_doc demo_state)
       (Uri ''file'' ''/home/u/inc.ly'') = Some [demo_diag, demo_diag]"
    using matching_line_gives_record
        [OF h1 h2 h3 h4 h5 regex_exec_sample h7 h8 h9 h10 h11 h12]
      matching_line_gives_record
        [OF h1 h2 h3 i4 i5 regex_exec_sample_stdin i7 i8 h9 h10 h11 h12]
    by (simp add: Let_def decimal_12 decimal_5 s)
  show ?thesis
    using c123 c4 by (elim conjE) (intro conjI, assumption+)
qed

text \<open>
  C8. When the path of a matching line resolves neither as \<^verbatim>\<open>-\<close>, nor as an existing
  absolute path, nor as an existing path beside the document, \<^verbatim>\<open>getUri\<close> throws an
  error whose message holds the raw path; the \<^verbatim>\<open>catch\<close> of that turn of the loop writes
  it to the output channel, and the collection ends as if the line were not in the
  chunk: the lines before it and after it are processed as they are without it.
\<close>

theorem unresolved_path_drops_only_its_record:
  assumes "lastIndex st = 0"
    and "pre = [] \<or> last pre \<in> {LF, CR}" and "post = [] \<or> hd post \<in> {LF, CR}"
    and "LF \<notin> set line" and "CR \<notin> set line"
    and "regex_exec errMsgRegex line 0 = Some m"
    and "grp (groups m) 1 = p"
    and "p \<noteq> ''-''"
    and "\<not> (path_isAbsolute sy p \<and> fs_existsSync sy p)"
    and "\<not> fs_existsSync sy (path_join sy (path_dirname sy (fsPath (uri doc))) p)"
  shows "getUri sy doc p = Inl (JsError (''Error in '' @ [BQ] @ p @ [BQ])) \<and>
    (\<forall>out s. loopBody sy out doc (groups m) s =
       outputToChannel (''Intellisense error: '' @ (''Error in '' @ [BQ] @ p @ [BQ]) @ '', '' @ out)
         True s) \<and>
    diagCol (processIntellisenseErrors sy (pre @ line @ post) doc st) =
      diagCol (processIntellisenseErrors sy post doc (processIntellisenseErrors sy pre doc st))"
proof -
  note am = allMatches_line[OF assms(4,5,6)]
  have gu: "getUri sy doc p = Inl (JsError (''Error in '' @ [BQ] @ p @ [BQ]))"
    using assms(8,9,10) by (simp add: getUri_def)
  then have mk: "mkDiag sy doc (groups m) = Inl (JsError (''Error in '' @ [BQ] @ p @ [BQ]))"
    using assms(7) by (simp add: mkDiag_def)
  have "diagCol (processIntellisenseErrors sy (pre @ line @ post) doc st) =
      collect sy doc (allMatches pre @ [groups m] @ allMatches post) (diagCol st)"
    using assms(1) allMatches_lines[OF assms(2,3), of line] am(1)
    by (simp add: diagCol_processIntellisenseErrors)
  then have "diagCol (processIntellisenseErrors sy (pre @ line @ post) doc st) =
      diagCol (processIntellisenseErrors sy post doc (processIntellisenseErrors sy pre doc st))"
    using mk assms(1)
    by (simp add: diagCol_processIntellisenseErrors lastIndex_processIntellisenseErrors
        collect_append) (simp add: collect_def)
  then show ?thesis using gu mk by (simp add: loopBody_def)
qed

theorem unresolved_path_drops_only_its_record_witness:
  "getUri demo_sys demo_doc ''/abs/none.ly'' =
     Inl (JsError (''Error in '' @ [BQ] @ ''/abs/none.ly'' @ [BQ])) \<and>
   diagCol (processIntellisenseErrors demo_sys demo_chunk demo_doc init) =
     diagCol (processIntellisenseErrors demo_sys ([LF] @ ''-:2:3: warning: w'') demo_doc
       (processIntellisenseErrors demo_sys (''/abs/path.ly:12:5: error: bad note'' @ [LF]) demo_doc
          init)) \<and>
   diagCol (processIntellisenseErrors demo_sys demo_chunk demo_doc init)
       (Uri ''file'' ''/abs/path.ly'') =
     Some [\<lparr>severity = Error,
            range' = \<lparr>startLine = Fin 11, startCol = Fin 0, endLine = Fin 11, endCol = Fin 4\<rparr>,
            message = ''bad note''\<rparr>] \<and>
   diagCol (processIntellisenseErrors demo_sys demo_chunk demo_doc init)
       (Uri ''file'' ''/home/u/score.ly'') =
     Some [\<lparr>severity = Warning,
            range' = \<lparr>startLine = Fin 1, startCol = Fin 0, endLine = Fin 1, endCol = Fin 2\<rparr>,
            message = ''w''\<rparr>] \<and>
   diagCol (processIntellisenseErrors demo_sys demo_chunk demo_doc init)
       (Uri ''file'' ''/abs/none.ly'') = None"
proof -
  have h1: "lastIndex init = 0" by (simp add: init_def)
  have h2: "''/abs/path.ly:12:5: error: bad note'' @ [LF] = [] \<or>
      last (''/abs/path.ly:12:5: error: bad note'' @ [LF]) \<in> {LF, CR}" by simp
  have h3: "[LF] @ ''-:2:3: warning: w'' = [] \<or> hd ([LF] @ ''-:2:3: warning: w'') \<in> {LF, CR}"
    by simp
  have h4: "LF \<notin> set ''/abs/none.ly:1:1: error: x''"
    and h5: "CR \<notin> set ''/abs/none.ly:1:1: error: x''"
    by (simp_all add: LF_def CR_def)
  have h6: "regex_exec errMsgRegex ''/abs/none.ly:1:1: error: x'' 0 =
     Some \<lparr>index = 0, endIndex = 26,
            groups = [1 \<mapsto> ''/abs/none.ly'', 2 \<mapsto> ''1'', 3 \<mapsto> ''1'', 4 \<mapsto> ''error'', 5 \<mapsto> ''x'']\<rparr>"
    by (simp add: regex_exec_def errMsgRegex_def LF_def CR_def isDigit_def)
  have h7: "grp (groups \<lparr>index = 0, endIndex = 26,
            groups = [1 \<mapsto> ''/abs/none.ly'', 2 \<mapsto> ''1'', 3 \<mapsto> ''1'', 4 \<mapsto> ''error'', 5 \<mapsto> ''x'']\<rparr>) 1 =
      ''/abs/none.ly''"
    by (simp add: grp_def)
  have h8: "''/abs/none.ly'' \<noteq> ''-''" by simp
  have h9: "\<not> (path_isAbsolute demo_sys ''/abs/none.ly'' \<and> fs_existsSync demo_sys ''/abs/none.ly'')"
    by (simp add: demo_sys_def)
  have h10: "\<not> fs_existsSync demo_sys
      (path_join demo_sys (path_dirname demo_sys (fsPath (uri demo_doc))) ''/abs/none.ly'')"
    by (simp add: demo_sys_def demo_doc_def Uri_file_def)
  have v1: "diagCol (processIntellisenseErrors demo_sys demo_chunk demo_doc init)
       (Uri ''file'' ''/abs/path.ly'') =
     Some [\<lparr>severity = Error,
            range' = \<lparr>startLine = Fin 11, startCol = Fin 0, endLine = Fin 11, endCol = Fin 4\<rparr>,
            message = ''bad note''\<rparr>]"
    by code_simp
  have v2: "diagCol (processIntellisenseErrors demo_sys demo_chunk demo_doc init)
       (Uri ''file'' ''/home/u/score.ly'') =
     Some [\<lparr>severity = Warning,
            range' = \<lparr>startLine = Fin 1, startCol = Fin 0, endLine = Fin 1, endCol = Fin 2\<rparr>,
            message = ''w''\<rparr>]"
    by code_simp
  have v3: "diagCol (processIntellisenseErrors demo_sys demo_chunk demo_doc init)
       (Uri ''file'' ''/abs/none.ly'') = None"
    by code_simp
  show ?thesis
    using unresolved_path_drops_only_its_record [OF h1 h2 h3 h4 h5 h6 h7 h8 h9 h10] v1 v2 v3
    by (simp add: demo_chunk_def)
qed

section \<open>Clearing the store at each run\<close>

text \<open>
  C3. \<^verbatim>\<open>execIntellisense\<close> leaves the diagnostic collection empty, whatever it held
  before. A chunk on which the pattern has no match leaves every state as it is (but
  for the reset \<^verbatim>\<open>lastIndex\<close>), so when every chunk that the new process writes to its
  error output has no match, the collection is empty after them all.
\<close>

theorem run_clears_the_store:
  "diagCol (execIntellisense sy doc st) = Map.empty \<and>
   ((\<forall>out\<in>set outs. regex_exec errMsgRegex out 0 = None) \<longrightarrow>
      (\<forall>out\<in>set outs. \<forall>s::State. processIntellisenseErrors sy out doc s = s\<lparr>lastIndex := 0\<rparr>) \<and>
      diagCol (foldl (\<lambda>s out. stderrData sy (length (processes st)) out s)
                 (execIntellisense sy doc st) outs) = Map.empty)"
proof (intro conjI impI)
  show "diagCol (execIntellisense sy doc st) = Map.empty" by (rule diagCol_execIntellisense)
next
  assume a: "\<forall>out\<in>set outs. regex_exec errMsgRegex out 0 = None"
  show "\<forall>out\<in>set outs. \<forall>s::State. processIntellisenseErrors sy out doc s = s\<lparr>lastIndex := 0\<rparr>"
  proof (intro ballI allI)
    fix out and s :: State assume "out \<in> set outs"
    with a have "allMatches (drop (lastIndex s) out) = []" by (simp add: regex_exec_None_from)
    then show "processIntellisenseErrors sy out doc s = s\<lparr>lastIndex := 0\<rparr>"
      by (simp add: processIntellisenseErrors_def processLoop_fold)
  qed
next
  assume a: "\<forall>out\<in>set outs. regex_exec errMsgRegex out 0 = None"
  have "\<And>s. diagCol (foldl (\<lambda>s out. stderrData sy h out s) s outs) = diagCol s" for h
    using a
  proof (induction outs)
    case Nil
    then show ?case by simp
  next
    case (Cons out outs)
    have "diagCol (stderrData sy h out s) = diagCol s"
      using Cons.prems
      by (simp add: stderrData_def diagCol_processIntellisenseErrors regex_exec_None_from collect_def)
    then show ?case using Cons by simp
  qed
  then show "diagCol (foldl (\<lambda>s out. stderrData sy (length (processes st)) out s)
                 (execIntellisense sy doc st) outs) = Map.empty"
    by (simp add: diagCol_execIntellisense)
qed

theorem run_clears_the_store_witness:
  "diagCol demo_state (Uri_file ''/home/u/score.ly'') = Some [demo_diag] \<and>
   diagCol (execIntellisense demo_sys demo_doc demo_state) = Map.empty \<and>
   diagCol (foldl (\<lambda>s out. stderrData demo_sys (length (processes demo_state)) out s)
              (execIntellisense demo_sys demo_doc demo_state)
              [''Parsing...'', ''warning: no location'' @ [LF]]) = Map.empty"
proof -
  have h: "\<forall>out\<in>set [''Parsing...'', ''warning: no location'' @ [LF]].
      regex_exec errMsgRegex out 0 = None"
    by (simp add: regex_exec_def errMsgRegex_def LF_def CR_def isDigit_def)
  have d: "diagCol demo_state (Uri_file ''/home/u/score.ly'') = Some [demo_diag]"
    by (simp add: demo_state_def Uri_file_def)
  show ?thesis
    using h d run_clears_the_store [of demo_sys demo_doc demo_state
        "[''Parsing...'', ''warning: no location'' @ [LF]]"]
    by simp
qed

section \<open>Debouncing\<close>

text \<open>
  C6. From any state the module can reach, take triggers that follow each other by less
  than the quiet interval of 500 ms, and let at least 500 ms pass after the last. Each
  trigger clears the pending timer before it sets its own, so at every moment of the
  sequence at most one timer is pending; \<^verbatim>\<open>execIntellisense\<close> runs exactly once, with
  the document of the last trigger (one process is spawned, for that document), and no
  timer is left pending.
\<close>

theorem debounce_runs_latest_once:
  "(\<forall>n. length (timers (burst sy (take n ds) (run sy ed evs))) \<le> 1) \<and>
   (ds \<noteq> [] \<and> (\<forall>(d, g)\<in>set (butlast ds). g < 500) \<and> 500 \<le> snd (last ds) \<longrightarrow>
      map p_doc (processes (burst sy ds (run sy ed evs))) =
        map p_doc (processes (run sy ed evs)) @ [fst (last ds)] \<and>
      timers (burst sy ds (run sy ed evs)) = [])"
proof (intro conjI allI impI)
  fix n
  show "length (timers (burst sy (take n ds) (run sy ed evs))) \<le> 1"
    by (intro pendingOk_length pendingOk_burst pendingOk_run)
next
  assume a: "ds \<noteq> [] \<and> (\<forall>(d, g)\<in>set (butlast ds). g < 500) \<and> 500 \<le> snd (last ds)"
  from burst_runs_last[OF pendingOk_run[of sy ed evs], of ds sy] a
  show "map p_doc (processes (burst sy ds (run sy ed evs))) =
      map p_doc (processes (run sy ed evs)) @ [fst (last ds)]"
    and "timers (burst sy ds (run sy ed evs)) = []"
    by auto
qed

theorem debounce_runs_latest_once_witness:
  "map p_doc (processes (burst demo_sys demo_burst (run demo_sys None []))) =
     [demo_doc\<lparr>getText := ''{ c d e }''\<rparr>] \<and>
   timers (burst demo_sys demo_burst (run demo_sys None [])) = []"
proof -
  have h: "demo_burst \<noteq> [] \<and> (\<forall>(d, g)\<in>set (butlast demo_burst). g < 500) \<and>
      500 \<le> snd (last demo_burst)"
    by (simp add: demo_burst_def)
  have p: "processes (run demo_sys None []) = []"
    by (simp add: run_def subscribeIntellisense_def initIntellisense_def init_def)
  have l: "fst (last demo_burst) = demo_doc\<lparr>getText := ''{ c d e }''\<rparr>"
    by (simp add: demo_burst_def)
  show ?thesis
    using debounce_runs_latest_once [of demo_sys demo_burst None "[]"] h p l
    by simp
qed

section \<open>Further properties\<close>

text \<open>
  Every line of the form \<open>p:l:c: k: msg\<close>, with \<open>p\<close> and \<open>msg\<close> text within a line, \<open>l\<close>
  and \<open>c\<close> decimal numbers and \<open>k\<close> one of \<^verbatim>\<open>error\<close> and \<^verbatim>\<open>warning\<close>, is matched by
  \<^verbatim>\<open>errMsgRegex\<close>, from its first character to its last.
\<close>

theorem pattern_line_is_matched:
  assumes "lineText p" and "digits l" and "digits c" and "k = ''error'' \<or> k = ''warning''"
    and "lineText msg"
  shows "\<exists>m. regex_exec errMsgRegex (p @ '':'' @ l @ '':'' @ c @ '': '' @ k @ '': '' @ msg) 0 = Some m \<and>
    index m = 0 \<and>
    endIndex m = length (p @ '':'' @ l @ '':'' @ c @ '': '' @ k @ '': '' @ msg)"
proof -
  let ?line = "p @ '':'' @ l @ '':'' @ c @ '': '' @ k @ '': '' @ msg"
  have "([], [1 \<mapsto> p, 2 \<mapsto> l, 3 \<mapsto> c, 4 \<mapsto> k, 5 \<mapsto> msg]) \<in> set (rmatch errMsgRegex (?line, Map.empty))"
    unfolding in_rmatch_errMsgRegex
    by (rule exI[of _ p], rule exI[of _ l], rule exI[of _ c], rule exI[of _ k], rule exI[of _ msg])
       (use assms in simp)
  then have "rmatch errMsgRegex (?line, Map.empty) \<noteq> []" by auto
  then have "scan errMsgRegex ?line \<noteq> None"
    unfolding scan_None_iff by blast
  then obtain m where m: "regex_exec errMsgRegex ?line 0 = Some m"
    by (auto simp: regex_exec_def split: option.splits)
  have k: "LF \<notin> set k \<and> CR \<notin> set k"
    using assms(4) literal_no_break(5-8) by (elim disjE) (simp_all only: simp_thms)
  note f = lineText_no_break[OF assms(1)] lineText_no_break[OF assms(5)]
    digits_no_break[OF assms(2)] digits_no_break[OF assms(3)] k literal_no_break(1-4)
  have nl: "LF \<notin> set ?line" "CR \<notin> set ?line"
    unfolding set_append Un_iff using f by blast+
  from allMatches_line[OF nl m] m show ?thesis by blast
qed

theorem pattern_line_is_matched_witness:
  "\<exists>m. regex_exec errMsgRegex
       (''/abs/path.ly'' @ '':'' @ ''12'' @ '':'' @ ''5'' @ '': '' @ ''error'' @ '': '' @ ''bad note'') 0 =
     Some m \<and> index m = 0 \<and>
     endIndex m =
       length (''/abs/path.ly'' @ '':'' @ ''12'' @ '':'' @ ''5'' @ '': '' @ ''error'' @ '': '' @ ''bad note'')"
proof -
  have h: "lineText ''/abs/path.ly''" "digits ''12''" "digits ''5''"
    "''error'' = ''error'' \<or> ''error'' = ''warning''" "lineText ''bad note''"
    by (simp_all add: lineText_def digits_def isDigit_def LF_def CR_def)
  show ?thesis by (rule pattern_line_is_matched [OF h])
qed

text \<open>
  When \<^verbatim>\<open>execIntellisense\<close> starts while \<^verbatim>\<open>intellisenseProcess\<close> holds a handle,
  it kills that process and the variable then holds the handle of the new process,
  which is not killed.
\<close>

theorem run_kills_the_process_it_holds:
  assumes "intellisenseProcess st = Some h" and "h < length (processes st)"
  shows "p_killed (processes (execIntellisense sy doc st) ! h) \<and>
    intellisenseProcess (execIntellisense sy doc st) = Some (length (processes st)) \<and>
    \<not> p_killed (processes (execIntellisense sy doc st) ! length (processes st))"
  using assms
  by (simp add: processes_execIntellisense intellisenseProcess_execIntellisense nth_append)

theorem run_kills_the_process_it_holds_witness:
  "intellisenseProcess (execIntellisense demo_sys demo_doc init) = Some 0 \<and>
   p_killed (processes (execIntellisense demo_sys demo_doc
      (execIntellisense demo_sys demo_doc init)) ! 0) \<and>
   intellisenseProcess (execIntellisense demo_sys demo_doc
      (execIntellisense demo_sys demo_doc init)) = Some 1"
proof -
  have h1: "intellisenseProcess (execIntellisense demo_sys demo_doc init) = Some 0"
    by (simp add: intellisenseProcess_execIntellisense init_def)
  have h2: "0 < length (processes (execIntellisense demo_sys demo_doc init))"
    by (simp add: processes_execIntellisense init_def)
  have l: "length (processes (execIntellisense demo_sys demo_doc init)) = 1"
    by (simp add: processes_execIntellisense init_def)
  show ?thesis
    using run_kills_the_process_it_holds [OF h1 h2, of demo_sys demo_doc] h1 l by simp
qed

text \<open>
  X3. Above \<open>2^53\<close> a line number is stored as the Numbers of the host language compute
  it: \<^verbatim>\<open>parseInt\<close> rounds 9007199254740993 to 9007199254740992, and the line of the
  record is 9007199254740991.
\<close>

theorem large_line_number_is_rounded:
  "parseInt ''9007199254740993'' = Fin 9007199254740992 \<and>
   diagCol (processIntellisenseErrors demo_sys ''-:9007199254740993:5: error: x'' demo_doc init)
       (Uri ''file'' ''/home/u/score.ly'') =
     Some [\<lparr>severity = Error,
            range' = \<lparr>startLine = Fin 9007199254740991, startCol = Fin 0,
                       endLine = Fin 9007199254740991, endCol = Fin 4\<rparr>,
            message = ''x''\<rparr>]"
  by code_simp

end
